theory Spec2Isabelle
  imports Main "HOL-Library.Multiset" "HOL-Library.Product_Lexorder"
begin

section \<open>JavaScript values\<close>

text \<open>
  The values that cross the boundaries of the scripts and routes: the result object of
  the campaign processor, the decoded form fields of an upload, the environment.
  Numbers are the integers the code handles (counts, a port): \<open>Num n\<close> is the
  number \<open>n\<close> for a safe integer, below \<open>2^53\<close> in absolute value, which ToString
  writes digit by digit; other numbers are outside the model. \<open>NaN\<close> is the failed
  \<open>parseInt\<close>. An object is its list of own properties, the first entry of a key
  being the property.
\<close>

datatype jsval =
    Undefined
  | Null
  | Bool bool
  | Num int
  | NaN
  | Str string
  | Arr "jsval list"
  | Obj "(string \<times> jsval) list"

datatype js_error = TypeError | SyntaxError | IOError | Error string

text \<open>ToBoolean: what \<open>if (v)\<close>, \<open>!v\<close> and \<open>v || w\<close> test.\<close>

fun truthy :: "jsval \<Rightarrow> bool" where
  "truthy Undefined = False"
| "truthy Null = False"
| "truthy (Bool b) = b"
| "truthy (Num n) = (n \<noteq> 0)"
| "truthy NaN = False"
| "truthy (Str s) = (s \<noteq> [])"
| "truthy (Arr xs) = True"
| "truthy (Obj kvs) = True"

text \<open>\<open>a || b\<close>.\<close>

definition js_or :: "jsval \<Rightarrow> jsval \<Rightarrow> jsval" where
  "js_or a b = (if truthy a then a else b)"

text \<open>
  Property access \<open>v.k\<close> for the data keys the code reads: a TypeError on
  \<open>undefined\<close> and \<open>null\<close>, the own property of an object, \<open>undefined\<close> where
  there is none.
\<close>

fun get_prop :: "jsval \<Rightarrow> string \<Rightarrow> js_error + jsval" where
  "get_prop Undefined k = Inl TypeError"
| "get_prop Null k = Inl TypeError"
| "get_prop (Obj kvs) k = (case map_of kvs k of None \<Rightarrow> Inr Undefined | Some v \<Rightarrow> Inr v)"
| "get_prop v k = Inr Undefined"

text \<open>The decimal numeral of an integer, as ToString writes a safe integer.\<close>

definition digit_char :: "nat \<Rightarrow> char" where
  "digit_char d = ''0123456789'' ! (d mod 10)"

fun decimal :: "nat \<Rightarrow> string" where
  "decimal n = (if n div 10 = 0 then [digit_char n] else decimal (n div 10) @ [digit_char n])"

declare decimal.simps [simp del]

definition string_of_int :: "int \<Rightarrow> string" where
  "string_of_int i = (if i < 0 then CHR ''-'' # decimal (nat (- i)) else decimal (nat i))"

text \<open>\<open>xs.join(sep)\<close> on strings.\<close>

fun join_strings :: "string \<Rightarrow> string list \<Rightarrow> string" where
  "join_strings sep [] = []"
| "join_strings sep [x] = x"
| "join_strings sep (x # y # ys) = x @ sep @ join_strings sep (y # ys)"

text \<open>
  ToString, as a template literal \<open>`${v}`\<close> applies it. An array joins its elements
  with commas, \<open>undefined\<close> and \<open>null\<close> elements being empty.
\<close>

fun to_string :: "jsval \<Rightarrow> string" where
  "to_string Undefined = ''undefined''"
| "to_string Null = ''null''"
| "to_string (Bool b) = (if b then ''true'' else ''false'')"
| "to_string (Num n) = string_of_int n"
| "to_string NaN = ''NaN''"
| "to_string (Str s) = s"
| "to_string (Arr xs) =
     join_strings '',''
       (map (\<lambda>x. if x = Undefined \<or> x = Null then [] else to_string x) xs)"
| "to_string (Obj kvs) = ''[object Object]''"

section \<open>scripts/processCampaigns.js\<close>

text \<open>
  \<open>main\<close> builds the configuration, hands it to the processor, awaits
  \<open>processor.process()\<close> and reports the result. The processor
  (\<open>lib/campaignProcessor\<close>) is not part of the sources, so what constructing it and
  awaiting it gives, an exception or the result, is the argument. What the run leaves
  behind is the lines written by \<open>console.log\<close>, what \<open>console.error\<close> got, and the
  exit code; an exception thrown inside \<open>main\<close> reaches the \<open>catch\<close> of the last
  lines of the script.
\<close>

datatype outcome =
    Completed "string list"
  | ProcessingFailed jsval
  | UnexpectedError "string list" js_error

text \<open>
  \<open>Completed out\<close>: the script ends normally after logging \<open>out\<close>.
  \<open>ProcessingFailed e\<close>: \<open>console.error('Processing failed:', e)\<close>, exit code 1.
  \<open>UnexpectedError out err\<close>: \<open>err\<close> was thrown after \<open>out\<close> had been logged;
  \<open>console.error('Unexpected error:', err)\<close>, exit code 1.
\<close>

text \<open>
  Evaluating an expression that may throw after \<open>out\<close> has been logged: the
  exception ends \<open>main\<close>, a value goes on to the rest of the body.
\<close>

definition evaluating :: "string list \<Rightarrow> js_error + jsval \<Rightarrow> (jsval \<Rightarrow> outcome) \<Rightarrow> outcome" where
  "evaluating out r rest = (case r of Inl e \<Rightarrow> UnexpectedError out e | Inr v \<Rightarrow> rest v)"

text \<open>The branch of a successful result: the six \<open>console.log\<close> calls, in order.\<close>

definition log_success :: "jsval \<Rightarrow> outcome" where
  "log_success result =
     (let out1 = [''Processing completed successfully''] in
      evaluating out1 (get_prop result ''campaignCount'') (\<lambda>campaignCount.
      let out2 = out1 @ [''Processed '' @ to_string campaignCount @ '' campaigns''] in
      evaluating out2 (get_prop result ''changesDetected'') (\<lambda>changesDetected.
      let out3 = out2 @ [''Detected '' @ to_string changesDetected @ '' changes''];
          out4 = out3 @ [''Reports generated at:''] in
      evaluating out4 (get_prop result ''reportPaths'') (\<lambda>reportPaths.
      evaluating out4 (get_prop reportPaths ''markdown'') (\<lambda>markdown.
      let out5 = out4 @ [''- Markdown: '' @ to_string markdown] in
      evaluating out5 (get_prop result ''reportPaths'') (\<lambda>reportPaths.
      evaluating out5 (get_prop reportPaths ''text'') (\<lambda>text.
      Completed (out5 @ [''- Text: '' @ to_string text]))))))))"

definition main :: "js_error + jsval \<Rightarrow> outcome" where
  "main processed =
     evaluating [] processed (\<lambda>result.
     evaluating [] (get_prop result ''success'') (\<lambda>success.
       if truthy success then log_success result
       else evaluating [] (get_prop result ''error'') (\<lambda>err. ProcessingFailed err)))"

text \<open>The result in the shape the specification gives it.\<close>

definition spec_shaped_result :: jsval where
  "spec_shaped_result =
     Obj [(''success'', Bool True),
          (''campaign_count'', Num 2),
          (''changes_detected'', Num 1),
          (''report_paths'',
             Obj [(''document'', Str ''report.md''), (''plaintext'', Str ''report.txt'')])]"

text \<open>The result in the shape \<open>main\<close> reads.\<close>

definition code_shaped_result :: "jsval \<Rightarrow> jsval \<Rightarrow> jsval \<Rightarrow> jsval \<Rightarrow> jsval" where
  "code_shaped_result campaignCount changesDetected markdown text =
     Obj [(''success'', Bool True),
          (''campaignCount'', campaignCount),
          (''changesDetected'', changesDetected),
          (''reportPaths'', Obj [(''markdown'', markdown), (''text'', text)])]"

section \<open>Paths and files\<close>

text \<open>
  \<open>path.join\<close> of Node on POSIX: the non-empty arguments are joined with \<open>/\<close> and
  the result is normalised. Normalisation goes through the segments between slashes
  with a stack (top first): an empty segment and \<open>.\<close> are dropped, \<open>..\<close> removes the
  segment before it (and is kept in a relative path when there is none to remove), any
  other segment is pushed.
\<close>

fun split_on :: "char \<Rightarrow> string \<Rightarrow> string list" where
  "split_on sep [] = [[]]"
| "split_on sep (c # cs) =
     (if c = sep then [] # split_on sep cs
      else (case split_on sep cs of [] \<Rightarrow> [[c]] | w # ws \<Rightarrow> (c # w) # ws))"

definition normalize_step :: "bool \<Rightarrow> string \<Rightarrow> string list \<Rightarrow> string list" where
  "normalize_step allowAboveRoot seg stack =
     (if seg = [] \<or> seg = ''.'' then stack
      else if seg = ''..'' then
        (case stack of
           [] \<Rightarrow> if allowAboveRoot then [''..''] else []
         | lastSeg # below \<Rightarrow>
             if lastSeg = ''..'' then (if allowAboveRoot then ''..'' # stack else stack)
             else below)
      else seg # stack)"

definition normalizeString :: "string \<Rightarrow> bool \<Rightarrow> string" where
  "normalizeString path allowAboveRoot =
     join_strings ''/'' (rev (fold (normalize_step allowAboveRoot) (split_on CHR ''/'' path) []))"

definition normalize :: "string \<Rightarrow> string" where
  "normalize path =
     (if path = [] then ''.''
      else
        let isAbsolute = (hd path = CHR ''/'');
            trailingSeparator = (last path = CHR ''/'');
            p = normalizeString path (\<not> isAbsolute)
        in if p = [] then (if isAbsolute then ''/'' else if trailingSeparator then ''./'' else ''.'')
           else (if isAbsolute then ''/'' else []) @ p @ (if trailingSeparator then ''/'' else []))"

definition path_join :: "string list \<Rightarrow> string" where
  "path_join args =
     (let parts = filter (\<lambda>a. a \<noteq> []) args
      in if parts = [] then ''.'' else normalize (join_strings ''/'' parts))"

text \<open>
  A normalised path is its stack of segments written out: plain segments, above
  leading \<open>..\<close> segments in a relative path.
\<close>

definition plain :: "string \<Rightarrow> bool" where
  "plain seg = (seg \<noteq> [] \<and> seg \<noteq> ''.'' \<and> seg \<noteq> ''..'' \<and> CHR ''/'' \<notin> set seg)"

fun normal_stack :: "bool \<Rightarrow> string list \<Rightarrow> bool" where
  "normal_stack allow [] = True"
| "normal_stack allow (s # st) =
     ((plain s \<or> (s = ''..'' \<and> allow \<and> list_all (\<lambda>d. d = ''..'') st)) \<and> normal_stack allow st)"

definition rendered :: "bool \<Rightarrow> string list \<Rightarrow> string" where
  "rendered isAbsolute st = (if isAbsolute then ''/'' else []) @ join_strings ''/'' (rev st)"

text \<open>
  \<open>directly_inside dir p\<close>: the path \<open>p\<close> is \<open>dir\<close>, a slash and one segment that is
  a name (not empty, not \<open>.\<close> or \<open>..\<close>, without a slash).
\<close>

definition directly_inside :: "string \<Rightarrow> string \<Rightarrow> bool" where
  "directly_inside dir p =
     (take (length dir + 1) p = dir @ ''/'' \<and> plain (drop (length dir + 1) p))"

text \<open>
  The file system as the routes see it: what is at a path. \<open>readFile\<close> gives the
  content of a regular file and rejects anything else (no entry, a directory).
\<close>

datatype fnode = File string | Dir

type_synonym filesystem = "string \<Rightarrow> fnode option"

definition is_file :: "filesystem \<Rightarrow> string \<Rightarrow> bool" where
  "is_file fs p = (case fs p of Some (File content) \<Rightarrow> True | _ \<Rightarrow> False)"

definition readFile :: "filesystem \<Rightarrow> string \<Rightarrow> js_error + string" where
  "readFile fs p = (case fs p of Some (File content) \<Rightarrow> Inr content | _ \<Rightarrow> Inl IOError)"

section \<open>The report route: GET /api/report/[type]/[filename]\<close>

text \<open>\<open>s.includes(sub)\<close>.\<close>

fun str_includes :: "string \<Rightarrow> string \<Rightarrow> bool" where
  "str_includes [] sub = (sub = [])"
| "str_includes (c # cs) sub = (take (length sub) (c # cs) = sub \<or> str_includes cs sub)"

text \<open>The class \<open>[a-zA-Z0-9_\-\.]\<close> and the pattern \<open>^[a-zA-Z0-9_\-\.]+$\<close>.\<close>

definition filename_char :: "char \<Rightarrow> bool" where
  "filename_char c =
     (c \<in> set ''abcdefghijklmnopqrstuvwxyzABCDEFGHIJKLMNOPQRSTUVWXYZ0123456789_-.'')"

definition matches_filename_pattern :: "string \<Rightarrow> bool" where
  "matches_filename_pattern filename = (filename \<noteq> [] \<and> list_all filename_char filename)"

datatype body =
    Json bool string
  | JsonError js_error
  | JsonData jsval
  | Text string

text \<open>
  \<open>Json success message\<close> is the body \<open>{success, message}\<close>, \<open>JsonError e\<close> the
  body \<open>{success: false, message: e.message}\<close> of a caught exception,
  \<open>JsonData v\<close> the body \<open>{success: true, data: v}\<close>, and \<open>Text content\<close> a
  plain body.
\<close>

record response =
  status :: nat
  body :: body
  headers :: "(string \<times> string) list"

text \<open>
  \<open>NextResponse.json({success: false, message}, {status})\<close>. The headers of a
  response are those the handler passes itself.
\<close>

definition json_failure :: "nat \<Rightarrow> string \<Rightarrow> response" where
  "json_failure code message = \<lparr>status = code, body = Json False message, headers = []\<rparr>"

text \<open>
  The handler, on the file system \<open>fs\<close> and the working directory \<open>cwd\<close>, for the
  route parameters \<open>type\<close> and \<open>filename\<close>, two strings. It returns the response
  and the paths that were handed to \<open>readFile\<close>. Nothing in the outer \<open>try\<close> throws
  on strings, so its \<open>catch\<close> (status 500) answers no request.
\<close>

definition report_output_dir :: "string \<Rightarrow> string" where
  "report_output_dir cwd = path_join [cwd, ''data'', ''output'']"

definition GET :: "filesystem \<Rightarrow> string \<Rightarrow> string \<Rightarrow> string \<Rightarrow> response \<times> string list" where
  "GET fs cwd type filename =
     (if type \<notin> set [''md'', ''txt''] then (json_failure 400 ''Invalid report type'', [])
      else if str_includes filename ''..'' \<or> \<not> matches_filename_pattern filename then
        (json_failure 400 ''Invalid filename'', [])
      else
        let outputDir = report_output_dir cwd;
            filePath = path_join [outputDir, filename]
        in case readFile fs filePath of
             Inr content \<Rightarrow>
               let contentType = (if type = ''md'' then ''text/markdown'' else ''text/plain'')
               in (\<lparr>status = 200, body = Text content,
                    headers =
                      [(''Content-Type'', contentType),
                       (''Content-Disposition'', ''inline; filename=\"'' @ filename @ ''\"''),
                       (''Cache-Control'', ''no-cache, no-store, must-revalidate''),
                       (''Pragma'', ''no-cache''),
                       (''Expires'', ''0'')]\<rparr>,
                   [filePath])
           | Inl e \<Rightarrow> (json_failure 404 ''Report not found'', [filePath]))"

section \<open>The upload route: POST /api/process\<close>

text \<open>
  What the handler takes from outside: the decoder \<open>JSON.parse\<close> and \<open>parseInt\<close>
  of the runtime, the working directory, the clock as \<open>new Date().toISOString()\<close>
  reads it, the environment variables, whether a \<open>writeFile\<close> to a path succeeds, and
  the Python process: from its arguments and the files written for it to its exit
  code and output.
\<close>

record environment =
  EMAIL_SENDER :: "string option"
  EMAIL_SENDER_PASSWORD :: "string option"
  EMAIL_SMTP_SERVER :: "string option"
  EMAIL_SMTP_PORT :: "string option"

record email_config =
  sender_email :: jsval
  sender_password :: jsval
  smtp_server :: jsval
  smtp_port :: jsval
  primary_recipients :: jsval
  cc_recipients :: jsval

record config_data =
  input_offsite_csv :: string
  output_dir :: string
  email_config :: email_config

datatype file_content = Bytes string | YamlOf config_data

type_synonym writes = "(string \<times> file_content) list"

record process_exit =
  exit_code :: jsval
  stdout :: string
  stderr :: string

record runtime =
  JSON_parse :: "string \<Rightarrow> js_error + jsval"
  parseInt :: "string \<Rightarrow> jsval"
  process_cwd :: string
  toISOString_now :: string
  process_env :: environment
  writeFile_ok :: "string \<Rightarrow> bool"
  spawn :: "string list \<Rightarrow> writes \<Rightarrow> process_exit"

text \<open>
  The fields of the multipart form: the uploaded file's bytes, and the two text fields.
  \<open>formData.get\<close> gives \<open>null\<close> for a field that is not there.
\<close>

record form_data =
  file_field :: "string option"
  primaryEmails_field :: "string option"
  ccEmails_field :: "string option"

text \<open>\<open>process.env.NAME\<close>: a string, or \<open>undefined\<close>.\<close>

definition env_value :: "string option \<Rightarrow> jsval" where
  "env_value v = (case v of None \<Rightarrow> Undefined | Some s \<Rightarrow> Str s)"

text \<open>
  \<open>JSON.parse(formData.get(name) as string)\<close>: the argument is converted to a string
  first, so a missing field is the text \<open>null\<close>.
\<close>

definition parse_field :: "runtime \<Rightarrow> string option \<Rightarrow> js_error + jsval" where
  "parse_field rt field =
     JSON_parse rt (case field of None \<Rightarrow> to_string Null | Some s \<Rightarrow> s)"

text \<open>\<open>runPythonScript\<close>: the promise rejects (\<open>Inl\<close>) or resolves (\<open>Inr\<close>).\<close>

definition runPythonScript :: "runtime \<Rightarrow> string \<Rightarrow> writes \<Rightarrow> js_error + jsval" where
  "runPythonScript rt configPath written =
     (let scriptPath = path_join [process_cwd rt, ''python'', ''process_campaign.py''];
          exit = spawn rt [''python'', scriptPath, ''--config'', configPath] written
      in if exit_code exit \<noteq> Num 0 then
           Inl (Error (''Python script failed (code '' @ to_string (exit_code exit) @ ''): ''
                       @ stderr exit))
         else
           (case JSON_parse rt (stdout exit) of
              Inr result \<Rightarrow> Inr result
            | Inl e \<Rightarrow> Inr (Obj [(''stdout'', Str (stdout exit)), (''stderr'', Str (stderr exit))])))"

text \<open>\<open>new Date().toISOString().replace(/[^0-9]/g, "")\<close>.\<close>

definition timestamp :: "runtime \<Rightarrow> string" where
  "timestamp rt = filter (\<lambda>c. c \<in> set ''0123456789'') (toISOString_now rt)"

definition upload_path :: "runtime \<Rightarrow> string" where
  "upload_path rt =
     path_join [path_join [process_cwd rt, ''data'', ''uploads''],
                ''campaign_report_'' @ timestamp rt @ ''.csv'']"

definition config_path :: "runtime \<Rightarrow> string" where
  "config_path rt =
     path_join [path_join [process_cwd rt, ''data'', ''config''],
                ''config_'' @ timestamp rt @ ''.yaml'']"

definition configData :: "runtime \<Rightarrow> jsval \<Rightarrow> jsval \<Rightarrow> config_data" where
  "configData rt primaryEmails ccEmails =
     \<lparr>input_offsite_csv = upload_path rt,
      output_dir = path_join [process_cwd rt, ''data'', ''output''],
      email_config =
        \<lparr>sender_email = env_value (EMAIL_SENDER (process_env rt)),
         sender_password = env_value (EMAIL_SENDER_PASSWORD (process_env rt)),
         smtp_server =
           js_or (env_value (EMAIL_SMTP_SERVER (process_env rt))) (Str ''smtp.office365.com''),
         smtp_port =
           parseInt rt
             (to_string (js_or (env_value (EMAIL_SMTP_PORT (process_env rt))) (Str ''587''))),
         primary_recipients = primaryEmails,
         cc_recipients = ccEmails\<rparr>\<rparr>"

text \<open>The response of the \<open>catch\<close> block.\<close>

definition caught :: "js_error \<Rightarrow> response" where
  "caught e = \<lparr>status = 500, body = JsonError e, headers = []\<rparr>"

text \<open>
  The handler, on what \<open>request.formData()\<close> gives (an exception, or the form): the
  response, and the files it wrote, in order. The configuration file holds
  \<open>yaml.stringify(configData)\<close>, kept here as the value it serialises.
\<close>

definition POST :: "runtime \<Rightarrow> js_error + form_data \<Rightarrow> response \<times> writes" where
  "POST rt request =
     (case request of
        Inl e \<Rightarrow> (caught e, [])
      | Inr form \<Rightarrow>
     (case parse_field rt (primaryEmails_field form) of
        Inl e \<Rightarrow> (caught e, [])
      | Inr primaryEmails \<Rightarrow>
     (case parse_field rt (ccEmails_field form) of
        Inl e \<Rightarrow> (caught e, [])
      | Inr ccEmails \<Rightarrow>
     (case file_field form of
        None \<Rightarrow> (json_failure 400 ''No file uploaded'', [])
      | Some bytes \<Rightarrow>
          if \<not> writeFile_ok rt (upload_path rt) then (caught IOError, [])
          else
            let written1 = [(upload_path rt, Bytes bytes)] in
            if \<not> writeFile_ok rt (config_path rt) then (caught IOError, written1)
            else
              let written2 =
                    written1 @ [(config_path rt, YamlOf (configData rt primaryEmails ccEmails))]
              in (case runPythonScript rt (config_path rt) written2 of
                    Inl e \<Rightarrow> (caught e, written2)
                  | Inr result \<Rightarrow>
                 (case get_prop result ''success'' of
                    Inl e \<Rightarrow> (caught e, written2)
                  | Inr success \<Rightarrow>
                      if \<not> truthy success then
                        (case get_prop result ''error'' of
                           Inl e \<Rightarrow> (caught e, written2)
                         | Inr err \<Rightarrow>
                             (caught (Error (to_string (js_or err (Str ''Python script failed'')))),
                              written2))
                      else (\<lparr>status = 200, body = JsonData result, headers = []\<rparr>, written2)))))))"

text \<open>The configurations among the files written, and the two lists of one.\<close>

fun configs_written :: "writes \<Rightarrow> config_data list" where
  "configs_written [] = []"
| "configs_written ((p, Bytes b) # ws) = configs_written ws"
| "configs_written ((p, YamlOf cfg) # ws) = cfg # configs_written ws"

definition recipients :: "config_data \<Rightarrow> jsval \<times> jsval" where
  "recipients cfg =
     (primary_recipients (email_config cfg), cc_recipients (email_config cfg))"

section \<open>The recipient lists of the upload form\<close>

text \<open>
  The state of the component \<open>CampaignReportProcessor\<close> that the two operations read
  and set. An operation runs on the state of the render it was created in, and the
  state after it is what its setters leave.
\<close>

record ui_state =
  newPrimaryEmail :: string
  newCCEmail :: string
  primaryEmails :: "string list"
  ccEmails :: "string list"
  emailError :: string

datatype list_type = Primary | CC

text \<open>
  \<open>validateEmail\<close>: the pattern \<open>^[^\s@]+@[^\s@]+\.[^\s@]+$\<close>. Nothing but the
  separator is an \<open>@\<close>, so the text before the first \<open>@\<close> is the local part, and
  what follows it must hold a dot that is neither its first nor its last character.
\<close>

definition is_space :: "char \<Rightarrow> bool" where
  "is_space c = (of_char c \<in> {9, 10, 11, 12, 13, 32, 160 :: nat})"

definition addr_char :: "char \<Rightarrow> bool" where
  "addr_char c = (\<not> is_space c \<and> c \<noteq> CHR ''@'')"

definition validateEmail :: "string \<Rightarrow> bool" where
  "validateEmail email =
     (let localPart = takeWhile (\<lambda>c. c \<noteq> CHR ''@'') email;
          rest = dropWhile (\<lambda>c. c \<noteq> CHR ''@'') email
      in localPart \<noteq> [] \<and> list_all addr_char localPart \<and>
         (case rest of
            [] \<Rightarrow> False
          | at # domain \<Rightarrow>
              list_all addr_char domain \<and> CHR ''.'' \<in> set (butlast (tl domain))))"

definition addEmail :: "list_type \<Rightarrow> string \<Rightarrow> ui_state \<Rightarrow> ui_state" where
  "addEmail type email st =
     (let st0 = st\<lparr>emailError := []\<rparr> in
      if email = [] then st0\<lparr>emailError := ''Please enter an email address''\<rparr>
      else if \<not> validateEmail email then
        st0\<lparr>emailError := ''Please enter a valid email address''\<rparr>
      else
        (case type of
           Primary \<Rightarrow>
             if email \<in> set (primaryEmails st) \<or> email \<in> set (ccEmails st) then
               st0\<lparr>emailError := ''Email already exists in the lists''\<rparr>
             else st0\<lparr>primaryEmails := primaryEmails st @ [email], newPrimaryEmail := []\<rparr>
         | CC \<Rightarrow>
             if email \<in> set (ccEmails st) \<or> email \<in> set (primaryEmails st) then
               st0\<lparr>emailError := ''Email already exists in the lists''\<rparr>
             else st0\<lparr>ccEmails := ccEmails st @ [email], newCCEmail := []\<rparr>))"

definition removeEmail :: "list_type \<Rightarrow> string \<Rightarrow> ui_state \<Rightarrow> ui_state" where
  "removeEmail type email st =
     (case type of
        Primary \<Rightarrow> st\<lparr>primaryEmails := filter (\<lambda>e. e \<noteq> email) (primaryEmails st)\<rparr>
      | CC \<Rightarrow> st\<lparr>ccEmails := filter (\<lambda>e. e \<noteq> email) (ccEmails st)\<rparr>)"

text \<open>The invariant: no address twice in a list, and none in both.\<close>

definition recipients_invariant :: "ui_state \<Rightarrow> bool" where
  "recipients_invariant st =
     (distinct (primaryEmails st) \<and> distinct (ccEmails st) \<and>
      set (primaryEmails st) \<inter> set (ccEmails st) = {})"

section \<open>The report engine\<close>

text \<open>
  The engine that loads, compares, categorises and sweeps (the Python program that the
  upload route spawns) is not among the sources. Its parts below follow the
  specification's sections 3, 4.1, 4.3, 4.4 and 4.7.
\<close>

subsection \<open>Campaigns\<close>

text \<open>
  Modelled from the spec: a calendar date, whose type is missing: (year, month, day),
  in the lexicographic order.
\<close>

type_synonym date = "nat \<times> nat \<times> nat"

text \<open>
  Modelled from the spec: the Campaign record of section 3, whose declaration is
  missing. The budget is a non-negative amount in hundredths; the setup checklist maps
  flag names to booleans.
\<close>

record campaign =
  vendor :: string
  event_name :: string
  tactic_name :: string
  order_id :: string
  start_date :: date
  end_date :: date
  retailer :: string
  brand :: string
  product :: string
  budget :: nat
  setup_checklist :: "(string \<times> bool) list"

text \<open>
  Modelled from the spec: the composite identity key (vendor, event name, tactic name,
  order id) of section 3, whose declaration is missing.
\<close>

type_synonym identity = "string \<times> string \<times> string \<times> string"

text \<open>
  Modelled from the spec: the identity of a campaign, the four key attributes of
  section 3; the code that computes it is missing.
\<close>

definition identity :: "campaign \<Rightarrow> identity" where
  "identity c = (vendor c, event_name c, tactic_name c, order_id c)"

text \<open>
  Modelled from the spec: the Snapshot of section 3, whose declaration is missing: a
  timestamped sequence of campaign records.
\<close>

record snapshot =
  taken_at :: int
  campaigns :: "campaign list"

subsection \<open>Categorizer\<close>

text \<open>
  Modelled from the spec: the result of the Categorizer of section 4.4, whose
  declaration is missing: three buckets, each a sequence of campaigns.
\<close>

record buckets =
  active :: "campaign list"
  upcoming :: "campaign list"
  completed :: "campaign list"

text \<open>
  Modelled from the spec: \<open>categorize(current, referenceDate)\<close> of section 4.4, whose
  code is missing. Each bucket is the sequence of the current campaigns that meet the
  bucket's rule: completed iff \<open>end_date < referenceDate\<close>, active iff
  \<open>start_date \<le> referenceDate \<le> end_date\<close>, upcoming iff
  \<open>start_date > referenceDate\<close>. The grouping of a bucket by month and retailer
  regroups its campaigns and is left out.
\<close>

definition categorize :: "campaign list \<Rightarrow> date \<Rightarrow> buckets" where
  "categorize current referenceDate =
     \<lparr>active =
        filter (\<lambda>c. start_date c \<le> referenceDate \<and> referenceDate \<le> end_date c) current,
      upcoming = filter (\<lambda>c. start_date c > referenceDate) current,
      completed = filter (\<lambda>c. end_date c < referenceDate) current\<rparr>"

text \<open>In how many of the three buckets a campaign is found.\<close>

definition buckets_holding :: "buckets \<Rightarrow> campaign \<Rightarrow> nat" where
  "buckets_holding b c =
     (if c \<in> set (active b) then 1 else 0) + (if c \<in> set (upcoming b) then 1 else 0) +
     (if c \<in> set (completed b) then 1 else 0)"

subsection \<open>Diff Engine\<close>

text \<open>
  Modelled from the spec: the value of a tracked attribute of section 4.3, whose
  declaration is missing: a date, a text, a budget, or a checklist flag (none when the
  checklist has no such flag).
\<close>

datatype field_value = DateV date | TextV string | AmountV nat | FlagV "bool option"

text \<open>
  Modelled from the spec: the Change Record of section 3, whose declaration is missing.
  A changed record lists, for every field that differs, its name with the old and the
  new value.
\<close>

datatype change_record =
    New
  | Removed
  | Changed "(string \<times> field_value \<times> field_value) list"
  | Unchanged

text \<open>
  Modelled from the spec: trimming the surrounding whitespace of a text (section 4.3);
  the code is missing.
\<close>

definition trim :: "string \<Rightarrow> string" where
  "trim s = rev (dropWhile is_space (rev (dropWhile is_space s)))"

text \<open>
  Modelled from the spec: the field comparison of section 4.3, whose code is missing.
  Dates are compared by calendar equality, budgets by exact equality, texts by equality
  after trimming the surrounding whitespace.
\<close>

fun same_value :: "field_value \<Rightarrow> field_value \<Rightarrow> bool" where
  "same_value (TextV a) (TextV b) = (trim a = trim b)"
| "same_value a b = (a = b)"

text \<open>
  Modelled from the spec: the tracked attributes of section 4.3 (dates, retailer,
  brand, product, budget, each setup-checklist flag), by name; the code is missing.
\<close>

definition tracked_fields :: "string list \<Rightarrow> campaign \<Rightarrow> (string \<times> field_value) list" where
  "tracked_fields flags c =
     [(''start_date'', DateV (start_date c)),
      (''end_date'', DateV (end_date c)),
      (''retailer'', TextV (retailer c)),
      (''brand'', TextV (brand c)),
      (''product'', TextV (product c)),
      (''budget'', AmountV (budget c))] @
     map (\<lambda>flag. (flag, FlagV (map_of (setup_checklist c) flag))) flags"

text \<open>
  Modelled from the spec: the full set of differing fields of section 4.3, over the
  tracked attributes and the checklist flags of either side; the code is missing.
\<close>

definition field_differences :: "campaign \<Rightarrow> campaign \<Rightarrow> (string \<times> field_value \<times> field_value) list" where
  "field_differences old new =
     (let flags = remdups (map fst (setup_checklist old) @ map fst (setup_checklist new))
      in map (\<lambda>((name, ov), (name', nv)). (name, ov, nv))
           (filter (\<lambda>((name, ov), (name', nv)). \<not> same_value ov nv)
              (zip (tracked_fields flags old) (tracked_fields flags new))))"

text \<open>
  Modelled from the spec: the identity-indexed lookup of section 4.3, whose code is
  missing.
\<close>

definition index_by_identity :: "campaign list \<Rightarrow> identity \<Rightarrow> campaign option" where
  "index_by_identity cs = map_of (map (\<lambda>c. (identity c, c)) cs)"

text \<open>
  Modelled from the spec: \<open>diff(current, previous)\<close> of section 4.3, whose code is
  missing. Both sides are indexed by identity; an identity only in the current set is
  new, one only in the previous snapshot is removed, one in both is changed with all
  its differing fields, or unchanged when there is none. No previous snapshot is the
  empty baseline.
\<close>

definition diff :: "campaign list \<Rightarrow> snapshot option \<Rightarrow> identity \<Rightarrow> change_record option" where
  "diff current previous =
     (let cur = index_by_identity current;
          prev = index_by_identity (case previous of None \<Rightarrow> [] | Some snap \<Rightarrow> campaigns snap)
      in (\<lambda>ident.
            case (cur ident, prev ident) of
              (None, None) \<Rightarrow> None
            | (Some c, None) \<Rightarrow> Some New
            | (None, Some p) \<Rightarrow> Some Removed
            | (Some c, Some p) \<Rightarrow>
                (let d = field_differences p c
                 in if d = [] then Some Unchanged else Some (Changed d))))"

subsection \<open>Record Loader\<close>

text \<open>
  Modelled from the spec: the required columns of sections 4.1 and 6; the loader's
  table of them is missing.
\<close>

definition required_columns :: "string list" where
  "required_columns =
     [''Tactic Start Date'', ''Tactic End Date'', ''Tactic Vendor'', ''Retailer'',
      ''Tactic Brand'', ''Event Name'', ''Tactic Name'', ''Tactic Product'',
      ''Tactic Order ID'', ''Tactic Allocated Budget'']"

text \<open>
  Modelled from the spec: the cell parsers that section 4.1 names without defining
  them (a calendar date, a non-negative budget after stripping currency symbols and
  thousands separators, an order id), taken as they are given.
\<close>

record cell_parsers =
  parse_date :: "string \<Rightarrow> date option"
  parse_budget :: "string \<Rightarrow> nat option"
  parse_order_id :: "string \<Rightarrow> string option"

text \<open>
  Modelled from the spec: the SchemaError of section 7 with the missing columns it
  lists; its declaration is missing.
\<close>

datatype load_error = SchemaError "string list"

text \<open>
  Modelled from the spec: what section 4.1 does with a row, whose declaration is
  missing: it is parsed into a campaign, rejected with a reason, or skipped as a summary
  row.
\<close>

datatype row_outcome = Parsed campaign | Rejected string | Skipped

text \<open>
  Modelled from the spec: the header check of section 4.1, whose code is missing: all
  the required columns that the header lacks.
\<close>

definition missing_columns :: "string list \<Rightarrow> string list" where
  "missing_columns header = filter (\<lambda>col. col \<notin> set header) required_columns"

text \<open>
  Modelled from the spec: reading a row by column name (section 4.1), whose code is
  missing: the cell under the column of the header, empty when the row is short.
\<close>

definition cell :: "string list \<Rightarrow> string list \<Rightarrow> string \<Rightarrow> string" where
  "cell header row col = (case map_of (zip header row) col of None \<Rightarrow> [] | Some v \<Rightarrow> v)"

text \<open>
  Modelled from the spec: the validation of one row of section 4.1, whose code is
  missing. A row with no
  parseable order id and no parseable dates is a summary row and is skipped; otherwise
  the dates must parse, the start must not be after the end, and the budget must parse.
  The input has no column for the setup checklist, which starts empty.
\<close>

definition parse_row :: "cell_parsers \<Rightarrow> (string \<Rightarrow> string) \<Rightarrow> row_outcome" where
  "parse_row P get =
     (let s = parse_date P (get ''Tactic Start Date'');
          e = parse_date P (get ''Tactic End Date'');
          oid = parse_order_id P (get ''Tactic Order ID'')
      in if oid = None \<and> s = None \<and> e = None then Skipped
         else case (s, e) of
           (Some sd, Some ed) \<Rightarrow>
             if ed < sd then Rejected ''start date after end date''
             else (case parse_budget P (get ''Tactic Allocated Budget'') of
                     None \<Rightarrow> Rejected ''bad budget''
                   | Some b \<Rightarrow>
                       Parsed \<lparr>vendor = get ''Tactic Vendor'',
                               event_name = get ''Event Name'',
                               tactic_name = get ''Tactic Name'',
                               order_id = get ''Tactic Order ID'',
                               start_date = sd, end_date = ed,
                               retailer = get ''Retailer'',
                               brand = get ''Tactic Brand'',
                               product = get ''Tactic Product'',
                               budget = b,
                               setup_checklist = []\<rparr>)
         | _ \<Rightarrow> Rejected ''bad date'')"

text \<open>
  Modelled from the spec: the policy on rows of sections 4.1 and 9, whose code is
  missing. The rows are taken
  in order and numbered from 1; a rejected row adds a row error with its number and
  reason, a parsed row whose identity an earlier parsed row has is a row error too, and
  the result is the parsed campaigns with the row errors.
\<close>

fun load_rows ::
  "cell_parsers \<Rightarrow> string list \<Rightarrow> nat \<Rightarrow> identity list \<Rightarrow> string list list \<Rightarrow>
   campaign list \<times> (nat \<times> string) list" where
  "load_rows P header n seen [] = ([], [])"
| "load_rows P header n seen (row # rows) =
     (case parse_row P (cell header row) of
        Skipped \<Rightarrow> load_rows P header (n + 1) seen rows
      | Rejected why \<Rightarrow>
          (let (cs, errs) = load_rows P header (n + 1) seen rows in (cs, (n, why) # errs))
      | Parsed c \<Rightarrow>
          if identity c \<in> set seen then
            (let (cs, errs) = load_rows P header (n + 1) seen rows
             in (cs, (n, ''duplicate campaign identity'') # errs))
          else
            (let (cs, errs) = load_rows P header (n + 1) (identity c # seen) rows
             in (c # cs, errs)))"

text \<open>
  Modelled from the spec: the Record Loader of section 4.1, whose code is missing. The
  header is checked once, before the rows; missing columns fail the batch with all of
  them.
\<close>

definition load ::
  "cell_parsers \<Rightarrow> string list \<Rightarrow> string list list \<Rightarrow>
   load_error + campaign list \<times> (nat \<times> string) list" where
  "load P header rows =
     (if missing_columns header \<noteq> [] then Inl (SchemaError (missing_columns header))
      else Inr (load_rows P header 1 [] rows))"

text \<open>
  Modelled from the spec: when a row repeats an identity (section 9), told without the
  loader's running state: some row before row \<open>i\<close> parses to a campaign with the
  identity of \<open>c\<close>.
\<close>

definition same_identity_parsed ::
  "cell_parsers \<Rightarrow> string list \<Rightarrow> campaign \<Rightarrow> string list \<Rightarrow> bool" where
  "same_identity_parsed P header c row =
     (case parse_row P (cell header row) of
        Parsed c' \<Rightarrow> identity c' = identity c
      | _ \<Rightarrow> False)"

definition repeats_earlier_row ::
  "cell_parsers \<Rightarrow> string list \<Rightarrow> string list list \<Rightarrow> nat \<Rightarrow> campaign \<Rightarrow> bool" where
  "repeats_earlier_row P header rows i c =
     list_ex (same_identity_parsed P header c) (take i rows)"

text \<open>
  Modelled from the spec: what sections 4.1 and 9 ask of the result for row \<open>i\<close>
  (counted from 0), to be compared with what \<open>load\<close> returns. The row gives a
  campaign when it parses and repeats no earlier row; it gives a row error, with the
  row's 1-based number, when it is rejected or repeats an earlier row; a summary row
  gives neither.
\<close>

definition expected_campaigns ::
  "cell_parsers \<Rightarrow> string list \<Rightarrow> string list list \<Rightarrow> nat \<Rightarrow> campaign list" where
  "expected_campaigns P header rows i =
     (case parse_row P (cell header (rows ! i)) of
        Parsed c \<Rightarrow> if repeats_earlier_row P header rows i c then [] else [c]
      | _ \<Rightarrow> [])"

definition expected_errors ::
  "cell_parsers \<Rightarrow> string list \<Rightarrow> string list list \<Rightarrow> nat \<Rightarrow> (nat \<times> string) list" where
  "expected_errors P header rows i =
     (case parse_row P (cell header (rows ! i)) of
        Parsed c \<Rightarrow>
          if repeats_earlier_row P header rows i c
          then [(i + 1, ''duplicate campaign identity'')] else []
      | Rejected why \<Rightarrow> [(i + 1, why)]
      | Skipped \<Rightarrow> [])"

text \<open>
  The same for a loader that starts at row number \<open>n\<close> with the identities \<open>seen\<close>
  already taken.
\<close>

definition campaigns_from ::
  "cell_parsers \<Rightarrow> string list \<Rightarrow> identity list \<Rightarrow> string list list \<Rightarrow> nat \<Rightarrow>
   campaign list" where
  "campaigns_from P header seen rows i =
     (case parse_row P (cell header (rows ! i)) of
        Parsed c \<Rightarrow>
          if identity c \<in> set seen \<or> repeats_earlier_row P header rows i c then [] else [c]
      | _ \<Rightarrow> [])"

definition errors_from ::
  "cell_parsers \<Rightarrow> string list \<Rightarrow> nat \<Rightarrow> identity list \<Rightarrow> string list list \<Rightarrow> nat \<Rightarrow>
   (nat \<times> string) list" where
  "errors_from P header n seen rows i =
     (case parse_row P (cell header (rows ! i)) of
        Parsed c \<Rightarrow>
          if identity c \<in> set seen \<or> repeats_earlier_row P header rows i c
          then [(n + i, ''duplicate campaign identity'')] else []
      | Rejected why \<Rightarrow> [(n + i, why)]
      | Skipped \<Rightarrow> [])"

subsection \<open>Retention Sweeper\<close>

text \<open>
  Modelled from the spec: a rendered report file of the output directory (section 4.7),
  with its name and its modification time; its declaration is missing.
\<close>

record report_file =
  file_name :: string
  mtime :: int

text \<open>
  Modelled from the spec: what a sweep can reach, the files of the output directory
  and the snapshots of the History Store (sections 4.2 and 4.7); its declaration is
  missing.
\<close>

record storage =
  output_files :: "report_file list"
  history_store :: "snapshot list"

text \<open>
  Modelled from the spec: the age test of section 4.7, whose code is missing. The
  generation time of a file is
  the timestamp its name embeds, decoded by \<open>embedded\<close> (in seconds; none when the
  name embeds no timestamp); the file is expired when that time is older than
  \<open>retentionDays\<close> days before \<open>now\<close>.
\<close>

definition expired :: "(string \<Rightarrow> int option) \<Rightarrow> nat \<Rightarrow> int \<Rightarrow> report_file \<Rightarrow> bool" where
  "expired embedded retentionDays now f =
     (case embedded (file_name f) of
        None \<Rightarrow> False
      | Some generated \<Rightarrow> generated < now - int retentionDays * 86400)"

text \<open>
  Modelled from the spec: \<open>sweep(outputDirectory, retentionDays, now)\<close> of section
  4.7, whose code is missing: the storage without the expired files of the output
  directory, and the count of the files removed.
\<close>

definition sweep ::
  "(string \<Rightarrow> int option) \<Rightarrow> storage \<Rightarrow> nat \<Rightarrow> int \<Rightarrow> storage \<times> nat" where
  "sweep embedded st retentionDays now =
     (st\<lparr>output_files :=
           filter (\<lambda>f. \<not> expired embedded retentionDays now f) (output_files st)\<rparr>,
      length (filter (expired embedded retentionDays now) (output_files st)))"

section \<open>Example inputs\<close>

text \<open>
  A file system with one report in the output directory of \<open>/app\<close>, a runtime and an
  upload, and a state of the form.
\<close>

definition example_fs :: filesystem where
  "example_fs p =
     (if p = ''/app/data/output/report_1.md'' then Some (File ''# Campaign Status'')
      else if p = ''/app/data/output'' then Some Dir
      else None)"

definition example_runtime :: runtime where
  "example_runtime =
     \<lparr>JSON_parse = (\<lambda>s.
        if s = ''[\"ann@example.com\",\"bob@example.com\"]''
          then Inr (Arr [Str ''ann@example.com'', Str ''bob@example.com''])
        else if s = ''[\"cy@example.com\"]'' then Inr (Arr [Str ''cy@example.com''])
        else if s = ''{\"success\": true}'' then Inr (Obj [(''success'', Bool True)])
        else Inl SyntaxError),
      parseInt = (\<lambda>s. if s = ''587'' then Num 587 else NaN),
      process_cwd = ''/app'',
      toISOString_now = ''2024-01-15T10:30:00.000Z'',
      process_env = \<lparr>EMAIL_SENDER = Some ''reports@example.com'',
                      EMAIL_SENDER_PASSWORD = Some ''secret'',
                      EMAIL_SMTP_SERVER = None, EMAIL_SMTP_PORT = None\<rparr>,
      writeFile_ok = (\<lambda>p. True),
      spawn = (\<lambda>args written.
        \<lparr>exit_code = Num 0, stdout = ''{\"success\": true}'', stderr = []\<rparr>)\<rparr>"

definition example_form :: form_data where
  "example_form =
     \<lparr>file_field = Some ''Tactic Start Date,Tactic End Date'',
      primaryEmails_field = Some ''[\"ann@example.com\",\"bob@example.com\"]'',
      ccEmails_field = Some ''[\"cy@example.com\"]''\<rparr>"

definition example_state :: ui_state where
  "example_state =
     \<lparr>newPrimaryEmail = [], newCCEmail = ''ann@example.com'',
      primaryEmails = [''ann@example.com'', ''bob@example.com''],
      ccEmails = [''cy@example.com''],
      emailError = []\<rparr>"

text \<open>
  Three campaigns around the reference date 2024-01-15 (the first two are the rows of
  the specification's example scenario), cell parsers that know the cells of four
  input rows (a good row, a row with a bad start date, a totals row, the first row
  again), and an output
  directory with an old report, a recent one and a file that is no report.
\<close>

definition campaign_A :: campaign where
  "campaign_A =
     \<lparr>vendor = ''VendorName'', event_name = ''EventName'', tactic_name = ''CampaignType'',
      order_id = ''12345-01'', start_date = (2024, 1, 1), end_date = (2024, 1, 31),
      retailer = ''ExampleRetailer'', brand = ''BrandName'', product = ''ProductName'',
      budget = 5000000, setup_checklist = []\<rparr>"

definition campaign_B :: campaign where
  "campaign_B =
     campaign_A\<lparr>order_id := ''12345-02'', start_date := (2024, 3, 1), end_date := (2024, 3, 31)\<rparr>"

definition campaign_C :: campaign where
  "campaign_C =
     campaign_A\<lparr>order_id := ''12345-03'', start_date := (2023, 11, 1), end_date := (2023, 11, 30)\<rparr>"

definition example_parsers :: cell_parsers where
  "example_parsers =
     \<lparr>parse_date = (\<lambda>s. if s = ''2024-01-01'' then Some (2024, 1, 1)
                         else if s = ''2024-01-31'' then Some (2024, 1, 31) else None),
      parse_budget = (\<lambda>s. if s = ''50000'' then Some 5000000 else None),
      parse_order_id = (\<lambda>s. if s = [] then None else Some s)\<rparr>"

definition example_rows :: "string list list" where
  "example_rows =
     [[''2024-01-01'', ''2024-01-31'', ''VendorName'', ''ExampleRetailer'', ''BrandName'',
       ''EventName'', ''CampaignType'', ''ProductName'', ''12345-01'', ''50000''],
      [''01/02/2024'', ''2024-01-31'', ''VendorName'', ''ExampleRetailer'', ''BrandName'',
       ''EventName'', ''CampaignType'', ''ProductName'', ''12345-02'', ''50000''],
      [''Total'', [], [], [], [], [], [], [], [], ''100000''],
      [''2024-01-01'', ''2024-01-31'', ''VendorName'', ''ExampleRetailer'', ''BrandName'',
       ''EventName'', ''CampaignType'', ''ProductName'', ''12345-01'', ''50000'']]"

definition example_storage :: storage where
  "example_storage =
     \<lparr>output_files =
        [\<lparr>file_name = ''Campaign_Status_Report_20240101_090000.md'', mtime = 1712000000\<rparr>,
         \<lparr>file_name = ''Campaign_Status_Report_20240301_090000.md'', mtime = 1709283600\<rparr>,
         \<lparr>file_name = ''notes.txt'', mtime = 1600000000\<rparr>],
      history_store = [\<lparr>taken_at = 1704099600, campaigns = [campaign_A]\<rparr>]\<rparr>"

definition example_embedded :: "string \<Rightarrow> int option" where
  "example_embedded name =
     (if name = ''Campaign_Status_Report_20240101_090000.md'' then Some 1704099600
      else if name = ''Campaign_Status_Report_20240301_090000.md'' then Some 1709283600
      else None)"

section \<open>Theorems\<close>

subsection \<open>Joining and normalising paths\<close>

lemma split_on_nonempty: "split_on sep s \<noteq> []"
  by (induction s) (auto split: list.splits)

lemma split_on_append: "split_on sep (a @ sep # b) = split_on sep a @ split_on sep b"
  by (induction a) (auto split: list.splits simp: split_on_nonempty)

lemma split_on_no_sep: "sep \<notin> set w \<Longrightarrow> split_on sep w = [w]"
  by (induction w) (auto split: list.splits)

lemma join_strings_snoc: "xs \<noteq> [] \<Longrightarrow> join_strings sep (xs @ [y]) = join_strings sep xs @ sep @ y"
  by (induction sep xs rule: join_strings.induct) auto

lemma split_on_join:
  "segs \<noteq> [] \<Longrightarrow> \<forall>w \<in> set segs. CHR ''/'' \<notin> set w \<Longrightarrow>
   split_on CHR ''/'' (join_strings ''/'' segs) = segs"
proof (induction segs rule: rev_induct)
  case Nil then show ?case by simp
next
  case (snoc y xs)
  show ?case
  proof (cases "xs = []")
    case True with snoc.prems show ?thesis by (simp add: split_on_no_sep)
  next
    case False
    with snoc show ?thesis
      by (simp add: join_strings_snoc split_on_append split_on_no_sep)
  qed
qed


lemma split_on_segments: "w \<in> set (split_on sep s) \<Longrightarrow> sep \<notin> set w"
  by (induction s arbitrary: w) (auto split: list.splits if_splits)

lemma normalize_step_normal:
  "CHR ''/'' \<notin> set seg \<Longrightarrow> normal_stack allow st \<Longrightarrow>
   normal_stack allow (normalize_step allow seg st)"
  by (cases st) (auto simp: normalize_step_def plain_def)

lemma fold_normalize_step_normal:
  "\<forall>seg \<in> set segs. CHR ''/'' \<notin> set seg \<Longrightarrow> normal_stack allow st \<Longrightarrow>
   normal_stack allow (fold (normalize_step allow) segs st)"
  by (induction segs arbitrary: st) (auto simp: normalize_step_normal)

lemma normalize_step_skip [simp]:
  "normalize_step allow [] st = st" "normalize_step allow ''.'' st = st"
  by (simp_all add: normalize_step_def)

lemma normalize_step_plain: "plain seg \<Longrightarrow> normalize_step allow seg st = seg # st"
  by (auto simp: normalize_step_def plain_def)

lemma normal_stack_replay:
  "normal_stack allow st \<Longrightarrow> fold (normalize_step allow) (rev st) [] = st"
proof (induction st)
  case Nil then show ?case by simp
next
  case (Cons s st)
  then have IH: "fold (normalize_step allow) (rev st) [] = st" by simp
  from Cons.prems have "normalize_step allow s st = s # st"
    by (cases st) (auto simp: normalize_step_plain, auto simp: normalize_step_def)
  with IH show ?case by simp
qed

lemma normal_stack_no_slash: "normal_stack allow st \<Longrightarrow> \<forall>w \<in> set st. CHR ''/'' \<notin> set w \<and> w \<noteq> []"
  by (induction st) (auto simp: plain_def)

lemma join_strings_nonempty: "xs \<noteq> [] \<Longrightarrow> \<forall>w \<in> set xs. w \<noteq> [] \<Longrightarrow> join_strings sep xs \<noteq> []"
  by (induction sep xs rule: join_strings.induct) auto

lemma hd_join_strings: "xs \<noteq> [] \<Longrightarrow> hd xs \<noteq> [] \<Longrightarrow> hd (join_strings sep xs) = hd (hd xs)"
  by (induction sep xs rule: join_strings.induct) auto

lemma rendered_facts:
  assumes "normal_stack (\<not> isAbsolute) st" "st \<noteq> []"
  shows "rendered isAbsolute st \<noteq> []"
    and "(hd (rendered isAbsolute st) = CHR ''/'') = isAbsolute"
    and "split_on CHR ''/'' (rendered isAbsolute st) = (if isAbsolute then [[]] else []) @ rev st"
proof -
  have ns: "\<forall>w \<in> set (rev st). CHR ''/'' \<notin> set w \<and> w \<noteq> []"
    using normal_stack_no_slash [OF assms(1)] by simp
  have ne: "rev st \<noteq> []" using assms(2) by simp
  have j: "join_strings ''/'' (rev st) \<noteq> []"
    using join_strings_nonempty [OF ne] ns by blast
  show "rendered isAbsolute st \<noteq> []" using j by (simp add: rendered_def)
  have hdne: "hd (rev st) \<noteq> []" and hdns: "CHR ''/'' \<notin> set (hd (rev st))"
    using ns ne hd_in_set [OF ne] by blast+
  have "hd (join_strings ''/'' (rev st)) = hd (hd (rev st))"
    using hd_join_strings [OF ne hdne] .
  moreover have "hd (hd (rev st)) \<noteq> CHR ''/''"
    using hdne hdns by (cases "hd (rev st)") auto
  ultimately show "(hd (rendered isAbsolute st) = CHR ''/'') = isAbsolute"
    using j by (simp add: rendered_def)
  have sp: "split_on CHR ''/'' (join_strings ''/'' (rev st)) = rev st"
    using split_on_join [OF ne] ns by blast
  show "split_on CHR ''/'' (rendered isAbsolute st) = (if isAbsolute then [[]] else []) @ rev st"
    using sp split_on_append [of "CHR ''/''" "[]" "join_strings ''/'' (rev st)"]
    by (simp add: rendered_def)
qed

lemma normalize_rendered_child:
  assumes "normal_stack (\<not> isAbsolute) st" "st \<noteq> []" "plain f"
  shows "normalize (rendered isAbsolute st @ CHR ''/'' # f) = rendered isAbsolute st @ CHR ''/'' # f"
proof -
  let ?d = "rendered isAbsolute st"
  note rf = rendered_facts [OF assms(1,2)]
  have fns: "CHR ''/'' \<notin> set f" and fne: "f \<noteq> []" using assms(3) by (auto simp: plain_def)
  have hd: "(hd (?d @ CHR ''/'' # f) = CHR ''/'') = isAbsolute" using rf(1,2) by simp
  have "last f \<noteq> CHR ''/''" using last_in_set [OF fne] fns by (auto simp del: last_in_set)
  then have lst: "last (?d @ CHR ''/'' # f) \<noteq> CHR ''/''" using fne by simp
  have sp: "split_on CHR ''/'' (?d @ CHR ''/'' # f) = (if isAbsolute then [[]] else []) @ rev st @ [f]"
    using split_on_append [of "CHR ''/''" ?d f] rf(3) split_on_no_sep [OF fns] by simp
  have fl: "fold (normalize_step (\<not> isAbsolute)) (split_on CHR ''/'' (?d @ CHR ''/'' # f)) [] = f # st"
    unfolding sp using normal_stack_replay [OF assms(1)]
    by (cases isAbsolute) (simp_all add: normalize_step_plain [OF assms(3)])
  have ns: "normalizeString (?d @ CHR ''/'' # f) (\<not> isAbsolute) = join_strings ''/'' (rev st) @ CHR ''/'' # f"
    using assms(2) by (simp add: normalizeString_def fl join_strings_snoc)
  show ?thesis
    using hd lst ns by (simp add: normalize_def rendered_def Let_def)
qed

lemma normalize_rendered_dot:
  assumes "normal_stack (\<not> isAbsolute) st" "st \<noteq> []"
  shows "normalize (rendered isAbsolute st @ CHR ''/'' # ''.'') = rendered isAbsolute st"
proof -
  let ?d = "rendered isAbsolute st"
  note rf = rendered_facts [OF assms(1,2)]
  have hd: "(hd (?d @ CHR ''/'' # ''.'') = CHR ''/'') = isAbsolute" using rf(1,2) by simp
  have sp: "split_on CHR ''/'' (?d @ CHR ''/'' # ''.'') = (if isAbsolute then [[]] else []) @ rev st @ [''.'']"
    using split_on_append [of "CHR ''/''" ?d "''.''"] rf(3) by simp
  have fl: "fold (normalize_step (\<not> isAbsolute)) (split_on CHR ''/'' (?d @ CHR ''/'' # ''.'')) [] = st"
    unfolding sp using normal_stack_replay [OF assms(1)]
    by (cases isAbsolute) simp_all
  have ns: "normalizeString (?d @ CHR ''/'' # ''.'') (\<not> isAbsolute) = join_strings ''/'' (rev st)"
    by (simp add: normalizeString_def fl)
  have ne: "rev st \<noteq> []" using assms(2) by simp
  have "join_strings ''/'' (rev st) \<noteq> []"
    using join_strings_nonempty [OF ne] normal_stack_no_slash [OF assms(1)] by simp
  then show ?thesis
    using hd ns by (simp add: normalize_def rendered_def Let_def)
qed

lemma outputDir_rendered:
  "\<exists>isAbsolute st. normal_stack (\<not> isAbsolute) st \<and> st \<noteq> [] \<and>
     path_join [cwd, ''data'', ''output''] = rendered isAbsolute st"
proof -
  define isAbsolute where "isAbsolute = (cwd \<noteq> [] \<and> hd cwd = CHR ''/'')"
  define st0 where "st0 = fold (normalize_step (\<not> isAbsolute)) (split_on CHR ''/'' cwd) []"
  define st where "st = ''output'' # ''data'' # st0"
  have n0: "normal_stack (\<not> isAbsolute) st0"
    unfolding st0_def using fold_normalize_step_normal [of "split_on CHR ''/'' cwd" "\<not> isAbsolute" "[]"]
    by (simp add: split_on_segments)
  have n: "normal_stack (\<not> isAbsolute) st" using n0 by (simp add: st_def plain_def)
  have ne: "st \<noteq> []" by (simp add: st_def)
  have jne: "join_strings ''/'' (rev st) \<noteq> []"
    using join_strings_nonempty [of "rev st"] normal_stack_no_slash [OF n] ne by simp
  have "path_join [cwd, ''data'', ''output''] = rendered isAbsolute st"
  proof (cases "cwd = []")
    case True
    then have abs: "\<not> isAbsolute" by (simp add: isAbsolute_def)
    have st: "st = [''output'', ''data'']" using True abs by (simp add: st_def st0_def normalize_step_def)
    show ?thesis using True abs
      by (simp add: path_join_def normalize_def normalizeString_def normalize_step_def st rendered_def)
  next
    case False
    let ?j = "cwd @ ''/data/output''"
    have j: "join_strings ''/'' [cwd, ''data'', ''output''] = ?j" by simp
    have hd: "(hd ?j = CHR ''/'') = isAbsolute" using False by (simp add: isAbsolute_def)
    have sp: "split_on CHR ''/'' ?j = split_on CHR ''/'' cwd @ [''data'', ''output'']"
      using split_on_append [of "CHR ''/''" cwd "''data/output''"] by simp
    have fl: "fold (normalize_step (\<not> isAbsolute)) (split_on CHR ''/'' ?j) [] = st"
      by (simp add: sp st_def st0_def normalize_step_def)
    have ns: "normalizeString ?j (\<not> isAbsolute) = join_strings ''/'' (rev st)"
      by (simp only: normalizeString_def fl)
    have "normalize ?j = rendered isAbsolute st"
      using hd ns jne False by (simp add: normalize_def rendered_def Let_def del: split_on.simps)
    then show ?thesis using False by (simp only: path_join_def j [symmetric], simp)
  qed
  with n ne show ?thesis by blast
qed

text \<open>\<open>path.join\<close> on some arguments.\<close>

lemma path_join_examples:
  "path_join [''/app'', ''data'', ''output''] = ''/app/data/output''"
  "path_join [''/app/data/output'', ''report_1.md''] = ''/app/data/output/report_1.md''"
  "path_join [''/app/data/output'', ''.''] = ''/app/data/output''"
  "path_join [''/app/data/output'', ''../../secret''] = ''/app/secret''"
  "path_join [''app/'', ''..'', ''..'', ''x''] = ''../x''"
  "path_join [[], []] = ''.''"
  by code_simp+

subsection \<open>The result read by \<open>main\<close>\<close>

lemma evaluating_Inr [simp]: "evaluating out (Inr v) rest = rest v"
  by (simp add: evaluating_def)

lemma evaluating_Inl [simp]: "evaluating out (Inl e) rest = UnexpectedError out e"
  by (simp add: evaluating_def)

text \<open>
  C1, as the specification states it: a completed run's result carries
  \<open>campaign_count\<close>, \<open>changes_detected\<close>, \<open>report_paths.document\<close> and
  \<open>report_paths.plaintext\<close>, and the caller reads these names. On such a result
  \<open>main\<close> finds none of them: both counts are logged as \<open>undefined\<close>, and reading
  \<open>result.reportPaths.markdown\<close> throws, \<open>reportPaths\<close> being \<open>undefined\<close>; the
  script ends through its \<open>catch\<close> with exit code 1.
\<close>

theorem main_spec_shape_counterexample:
  "main (Inr spec_shaped_result) =
     UnexpectedError
       [''Processing completed successfully'',
        ''Processed undefined campaigns'',
        ''Detected undefined changes'',
        ''Reports generated at:'']
       TypeError"
  by (simp add: main_def log_success_def spec_shaped_result_def)

text \<open>
  C1, amended to the names of the code. Whenever the result has a truthy \<open>success\<close>
  and its \<open>reportPaths\<close> can be read, \<open>main\<close> completes, and what it logs is made of
  the properties \<open>campaignCount\<close>, \<open>changesDetected\<close>, \<open>reportPaths.markdown\<close> and
  \<open>reportPaths.text\<close> of the result and of nothing else in it. Whenever \<open>success\<close>
  is not truthy, \<open>main\<close> reports the property \<open>error\<close> and fails.
\<close>

theorem main_reads_code_field_names:
  assumes "get_prop result ''success'' = Inr success"
  shows "(truthy success \<and>
          get_prop result ''campaignCount'' = Inr campaignCount \<and>
          get_prop result ''changesDetected'' = Inr changesDetected \<and>
          get_prop result ''reportPaths'' = Inr reportPaths \<and>
          get_prop reportPaths ''markdown'' = Inr markdown \<and>
          get_prop reportPaths ''text'' = Inr text \<longrightarrow>
          main (Inr result) =
            Completed
              [''Processing completed successfully'',
               ''Processed '' @ to_string campaignCount @ '' campaigns'',
               ''Detected '' @ to_string changesDetected @ '' changes'',
               ''Reports generated at:'',
               ''- Markdown: '' @ to_string markdown,
               ''- Text: '' @ to_string text])
       \<and> (\<not> truthy success \<and> get_prop result ''error'' = Inr err \<longrightarrow>
            main (Inr result) = ProcessingFailed err)"
  using assms by (simp add: main_def log_success_def)

theorem main_reads_code_field_names_witness:
  "main (Inr (code_shaped_result (Num 12) (Num 3) (Str ''data/output/report_1.md'')
                (Str ''data/output/report_1.txt''))) =
     Completed
       [''Processing completed successfully'',
        ''Processed 12 campaigns'',
        ''Detected 3 changes'',
        ''Reports generated at:'',
        ''- Markdown: data/output/report_1.md'',
        ''- Text: data/output/report_1.txt''] \<and>
   main (Inr (Obj [(''success'', Bool False), (''error'', Str ''Input file not found'')])) =
     ProcessingFailed (Str ''Input file not found'')"
proof -
  let ?rp = "Obj [(''markdown'', Str ''data/output/report_1.md''),
                  (''text'', Str ''data/output/report_1.txt'')]"
  let ?r = "code_shaped_result (Num 12) (Num 3) (Str ''data/output/report_1.md'')
              (Str ''data/output/report_1.txt'')"
  let ?f = "Obj [(''success'', Bool False), (''error'', Str ''Input file not found'')]"
  have s: "get_prop ?r ''success'' = Inr (Bool True)"
    by (simp add: code_shaped_result_def)
  have t: "truthy (Bool True)" by simp
  have cc: "get_prop ?r ''campaignCount'' = Inr (Num 12)"
    by (simp add: code_shaped_result_def)
  have cd: "get_prop ?r ''changesDetected'' = Inr (Num 3)"
    by (simp add: code_shaped_result_def)
  have rp: "get_prop ?r ''reportPaths'' = Inr ?rp"
    by (simp add: code_shaped_result_def)
  have md: "get_prop ?rp ''markdown'' = Inr (Str ''data/output/report_1.md'')" by simp
  have tx: "get_prop ?rp ''text'' = Inr (Str ''data/output/report_1.txt'')" by simp
  have n12: "string_of_int 12 = ''12''" by code_simp
  have n3: "string_of_int 3 = ''3''" by code_simp
  have fs: "get_prop ?f ''success'' = Inr (Bool False)" by simp
  have fe: "get_prop ?f ''error'' = Inr (Str ''Input file not found'')" by simp
  have ok: "main (Inr ?r) =
     Completed
       [''Processing completed successfully'',
        ''Processed '' @ to_string (Num 12) @ '' campaigns'',
        ''Detected '' @ to_string (Num 3) @ '' changes'',
        ''Reports generated at:'',
        ''- Markdown: '' @ to_string (Str ''data/output/report_1.md''),
        ''- Text: '' @ to_string (Str ''data/output/report_1.txt'')]"
    using main_reads_code_field_names [OF s] t cc cd rp md tx by blast
  have failed: "main (Inr ?f) = ProcessingFailed (Str ''Input file not found'')"
    using main_reads_code_field_names [OF fs] fe by simp
  show ?thesis using ok failed n12 n3 by simp
qed

subsection \<open>The report route\<close>

lemma take_length_eq_iff: "(take (length sub) s = sub) = (\<exists>b. s = sub @ b)"
proof
  assume "take (length sub) s = sub"
  then have "s = sub @ drop (length sub) s" by (metis append_take_drop_id)
  then show "\<exists>b. s = sub @ b" ..
next
  assume "\<exists>b. s = sub @ b"
  then show "take (length sub) s = sub" by auto
qed

lemma str_includes_iff: "str_includes s sub = (\<exists>a b. s = a @ sub @ b)"
proof (induction s)
  case Nil
  show ?case by auto
next
  case (Cons c cs)
  show ?case
  proof
    assume "str_includes (c # cs) sub"
    then consider "take (length sub) (c # cs) = sub" | "str_includes cs sub" by auto
    then show "\<exists>a b. c # cs = a @ sub @ b"
    proof cases
      case 1
      then obtain b where "c # cs = sub @ b" using take_length_eq_iff by metis
      then have "c # cs = [] @ sub @ b" by simp
      then show ?thesis by blast
    next
      case 2
      then obtain a b where "cs = a @ sub @ b" using Cons.IH by blast
      then have "c # cs = (c # a) @ sub @ b" by simp
      then show ?thesis by blast
    qed
  next
    assume "\<exists>a b. c # cs = a @ sub @ b"
    then obtain a b where ab: "c # cs = a @ sub @ b" by blast
    show "str_includes (c # cs) sub"
    proof (cases a)
      case Nil
      then have "take (length sub) (c # cs) = sub" using ab take_length_eq_iff [of sub "c # cs"] by auto
      then show ?thesis by simp
    next
      case (Cons x a')
      then have "cs = a' @ sub @ b" using ab by simp
      then have "str_includes cs sub" using Cons.IH by blast
      then show ?thesis by simp
    qed
  qed
qed

lemma filename_char_not_slash: "filename_char c \<Longrightarrow> c \<noteq> CHR ''/''"
  by (auto simp: filename_char_def)

lemma accepted_filename_plain:
  assumes "\<not> str_includes filename ''..''" "matches_filename_pattern filename"
  shows "filename = ''.'' \<or> plain filename"
proof -
  have ne: "filename \<noteq> []" and all: "list_all filename_char filename"
    using assms(2) by (simp_all add: matches_filename_pattern_def)
  have "CHR ''/'' \<notin> set filename"
    using all filename_char_not_slash by (auto simp: list_all_iff)
  moreover have "filename \<noteq> ''..''" using assms(1) by auto
  ultimately show ?thesis using ne by (auto simp: plain_def)
qed

lemma join_two: "a \<noteq> [] \<Longrightarrow> b \<noteq> [] \<Longrightarrow> path_join [a, b] = normalize (a @ CHR ''/'' # b)"
  by (simp add: path_join_def)

lemma report_file_path:
  assumes "\<not> str_includes filename ''..''" "matches_filename_pattern filename"
  shows "path_join [report_output_dir cwd, filename] =
           (if filename = ''.'' then report_output_dir cwd
            else report_output_dir cwd @ CHR ''/'' # filename)"
proof -
  obtain isAbsolute st where st: "normal_stack (\<not> isAbsolute) st" "st \<noteq> []"
    and d: "report_output_dir cwd = rendered isAbsolute st"
    using outputDir_rendered [of cwd] by (auto simp: report_output_dir_def)
  have dne: "report_output_dir cwd \<noteq> []" using rendered_facts(1) [OF st] d by simp
  have fne: "filename \<noteq> []" using assms(2) by (simp add: matches_filename_pattern_def)
  show ?thesis
  proof (cases "filename = ''.''")
    case True
    then show ?thesis
      using join_two [OF dne fne] normalize_rendered_dot [OF st] d by simp
  next
    case False
    then have "plain filename" using accepted_filename_plain [OF assms] by simp
    then show ?thesis
      using False join_two [OF dne fne] normalize_rendered_child [OF st] d by simp
  qed
qed

lemma directly_inside_child: "plain name \<Longrightarrow> directly_inside dir (dir @ CHR ''/'' # name)"
  by (simp add: directly_inside_def)

text \<open>
  C8: a filename that contains \<open>..\<close> or a character outside
  \<open>[a-zA-Z0-9_\-.]\<close> is answered with status 400 and no file is read, whatever the
  type; and when the route answers 200, the one file it read lies directly inside the
  output directory \<open>data/output\<close> (that directory not being a regular file itself) and
  its content is the body.
\<close>

theorem GET_no_path_traversal:
  "((\<exists>a b. filename = a @ ''..'' @ b) \<or> (\<exists>c \<in> set filename. \<not> filename_char c) \<longrightarrow>
      status (fst (GET fs cwd type filename)) = 400 \<and> snd (GET fs cwd type filename) = [])
   \<and>
   (\<not> is_file fs (report_output_dir cwd) \<and> status (fst (GET fs cwd type filename)) = 200 \<longrightarrow>
      (\<exists>p content.
         snd (GET fs cwd type filename) = [p] \<and>
         directly_inside (report_output_dir cwd) p \<and>
         fs p = Some (File content) \<and>
         body (fst (GET fs cwd type filename)) = Text content))"
proof (intro conjI impI)
  assume bad: "(\<exists>a b. filename = a @ ''..'' @ b) \<or> (\<exists>c \<in> set filename. \<not> filename_char c)"
  then have "str_includes filename ''..'' \<or> \<not> matches_filename_pattern filename"
    unfolding str_includes_iff by (auto simp: matches_filename_pattern_def list_all_iff)
  then show "status (fst (GET fs cwd type filename)) = 400"
    and "snd (GET fs cwd type filename) = []"
    by (auto simp: GET_def json_failure_def)
next
  assume h: "\<not> is_file fs (report_output_dir cwd) \<and> status (fst (GET fs cwd type filename)) = 200"
  let ?p = "path_join [report_output_dir cwd, filename]"
  have ok: "\<not> str_includes filename ''..''" "matches_filename_pattern filename"
    using h by (auto simp: GET_def json_failure_def split: if_splits)
  obtain content where rd: "readFile fs ?p = Inr content"
    using h ok by (cases "readFile fs ?p") (auto simp: GET_def json_failure_def Let_def split: if_splits)
  then have isfile: "fs ?p = Some (File content)"
    by (auto simp: readFile_def split: option.splits fnode.splits)
  then have "is_file fs ?p" by (simp add: is_file_def)
  then have nd: "filename \<noteq> ''.''" using h report_file_path [OF ok, of cwd] by auto
  then have p: "?p = report_output_dir cwd @ CHR ''/'' # filename"
    using report_file_path [OF ok, of cwd] by simp
  have pl: "plain filename" using accepted_filename_plain [OF ok] nd by simp
  have "snd (GET fs cwd type filename) = [?p]"
    and "body (fst (GET fs cwd type filename)) = Text content"
    using h ok rd by (auto simp: GET_def json_failure_def Let_def split: if_splits)
  moreover have "directly_inside (report_output_dir cwd) ?p"
    unfolding p using pl by (rule directly_inside_child)
  ultimately show "\<exists>p content.
         snd (GET fs cwd type filename) = [p] \<and>
         directly_inside (report_output_dir cwd) p \<and>
         fs p = Some (File content) \<and>
         body (fst (GET fs cwd type filename)) = Text content"
    using isfile by blast
qed

theorem GET_no_path_traversal_witness:
  "(\<exists>a b. ''../../etc/passwd'' = a @ ''..'' @ b) \<and>
   status (fst (GET example_fs ''/app'' ''md'' ''../../etc/passwd'')) = 400 \<and>
   snd (GET example_fs ''/app'' ''md'' ''../../etc/passwd'') = [] \<and>
   \<not> is_file example_fs (report_output_dir ''/app'') \<and>
   status (fst (GET example_fs ''/app'' ''md'' ''report_1.md'')) = 200 \<and>
   (\<exists>p content.
      snd (GET example_fs ''/app'' ''md'' ''report_1.md'') = [p] \<and>
      directly_inside (report_output_dir ''/app'') p \<and>
      example_fs p = Some (File content) \<and>
      body (fst (GET example_fs ''/app'' ''md'' ''report_1.md'')) = Text content)"
proof -
  have "str_includes ''../../etc/passwd'' ''..''" by simp
  then have bad: "\<exists>a b. ''../../etc/passwd'' = a @ ''..'' @ b"
    unfolding str_includes_iff .
  have dir: "\<not> is_file example_fs (report_output_dir ''/app'')" by code_simp
  have ok: "status (fst (GET example_fs ''/app'' ''md'' ''report_1.md'')) = 200" by code_simp
  show ?thesis
    using bad dir ok
      GET_no_path_traversal [of "''../../etc/passwd''" example_fs "''/app''" "''md''"]
      GET_no_path_traversal [of "''report_1.md''" example_fs "''/app''" "''md''"]
    by blast
qed

text \<open>
  C9: the type decides the Content-Type header and nothing else. For every filename,
  the requests for \<open>md\<close> and for \<open>txt\<close> read the same path and give the same status
  and the same body, and their headers other than Content-Type are the same.
\<close>

theorem GET_type_sets_content_type_only:
  "snd (GET fs cwd ''md'' filename) = snd (GET fs cwd ''txt'' filename) \<and>
   status (fst (GET fs cwd ''md'' filename)) = status (fst (GET fs cwd ''txt'' filename)) \<and>
   body (fst (GET fs cwd ''md'' filename)) = body (fst (GET fs cwd ''txt'' filename)) \<and>
   filter (\<lambda>h. fst h \<noteq> ''Content-Type'') (headers (fst (GET fs cwd ''md'' filename))) =
   filter (\<lambda>h. fst h \<noteq> ''Content-Type'') (headers (fst (GET fs cwd ''txt'' filename)))"
  by (cases "readFile fs (path_join [report_output_dir cwd, filename])")
     (simp_all add: GET_def Let_def)

theorem GET_type_sets_content_type_only_witness:
  "body (fst (GET example_fs ''/app'' ''md'' ''report_1.md'')) = Text ''# Campaign Status'' \<and>
   body (fst (GET example_fs ''/app'' ''txt'' ''report_1.md'')) = Text ''# Campaign Status'' \<and>
   map_of (headers (fst (GET example_fs ''/app'' ''md'' ''report_1.md''))) ''Content-Type'' =
     Some ''text/markdown'' \<and>
   map_of (headers (fst (GET example_fs ''/app'' ''txt'' ''report_1.md''))) ''Content-Type'' =
     Some ''text/plain''"
proof -
  have a: "body (fst (GET example_fs ''/app'' ''md'' ''report_1.md'')) = Text ''# Campaign Status''"
    by code_simp
  have b: "map_of (headers (fst (GET example_fs ''/app'' ''md'' ''report_1.md''))) ''Content-Type'' =
     Some ''text/markdown''" by code_simp
  have c: "map_of (headers (fst (GET example_fs ''/app'' ''txt'' ''report_1.md''))) ''Content-Type'' =
     Some ''text/plain''" by code_simp
  show ?thesis
    using GET_type_sets_content_type_only [of example_fs "''/app''" "''report_1.md''"] a b c
    by simp
qed

subsection \<open>The upload route\<close>

lemma configs_written_append:
  "configs_written (xs @ ys) = configs_written xs @ configs_written ys"
  by (induction xs rule: configs_written.induct) auto

text \<open>
  C2: when the two recipient fields of an upload decode to the lists \<open>primaryList\<close>
  and \<open>ccList\<close>, the configuration written for the Python program carries exactly
  these two values as \<open>primary_recipients\<close> and \<open>cc_recipients\<close>; it is written
  once, when the upload has a file and both writes succeed, and otherwise not at all.
\<close>

theorem POST_passes_recipients_through:
  assumes "parse_field rt (primaryEmails_field form) = Inr primaryList"
    and "parse_field rt (ccEmails_field form) = Inr ccList"
  shows "map recipients (configs_written (snd (POST rt (Inr form)))) =
           (if file_field form \<noteq> None \<and> writeFile_ok rt (upload_path rt) \<and>
               writeFile_ok rt (config_path rt)
            then [(primaryList, ccList)] else [])"
  using assms
  by (auto simp: POST_def Let_def recipients_def configData_def json_failure_def
           split: option.splits sum.splits)


theorem POST_passes_recipients_through_witness:
  "map recipients (configs_written (snd (POST example_runtime (Inr example_form)))) =
     [(Arr [Str ''ann@example.com'', Str ''bob@example.com''], Arr [Str ''cy@example.com''])]"
proof -
  have p: "parse_field example_runtime (primaryEmails_field example_form) =
             Inr (Arr [Str ''ann@example.com'', Str ''bob@example.com''])"
    by (simp add: parse_field_def example_runtime_def example_form_def)
  have c: "parse_field example_runtime (ccEmails_field example_form) =
             Inr (Arr [Str ''cy@example.com''])"
    by (simp add: parse_field_def example_runtime_def example_form_def)
  have f: "file_field example_form \<noteq> None" by (simp add: example_form_def)
  have w: "writeFile_ok example_runtime (upload_path example_runtime)"
    "writeFile_ok example_runtime (config_path example_runtime)"
    by (simp_all add: example_runtime_def)
  show ?thesis
    using POST_passes_recipients_through [OF p c] f w by simp
qed

subsection \<open>The recipient lists\<close>

text \<open>
  \<open>validateEmail\<close> accepts the language of its pattern: a local part, an \<open>@\<close>, and
  two parts around a dot, each part non-empty and free of whitespace and \<open>@\<close>.
\<close>

lemma dot_addr_char: "addr_char CHR ''.''"
  by (simp add: addr_char_def is_space_def)

lemma validateEmail_iff:
  "validateEmail email =
     (\<exists>l d1 d2. email = l @ ''@'' @ d1 @ ''.'' @ d2 \<and> l \<noteq> [] \<and> d1 \<noteq> [] \<and> d2 \<noteq> [] \<and>
                list_all addr_char l \<and> list_all addr_char d1 \<and> list_all addr_char d2)"
proof
  assume v: "validateEmail email"
  let ?l = "takeWhile (\<lambda>c. c \<noteq> CHR ''@'') email"
  let ?r = "dropWhile (\<lambda>c. c \<noteq> CHR ''@'') email"
  from v have l: "?l \<noteq> []" "list_all addr_char ?l" by (simp_all add: validateEmail_def Let_def)
  from v obtain a domain where r: "?r = a # domain"
    and dom: "list_all addr_char domain" and dot: "CHR ''.'' \<in> set (butlast (tl domain))"
    by (auto simp: validateEmail_def Let_def split: list.splits)
  have a: "a = CHR ''@''" using hd_dropWhile [of "\<lambda>c. c \<noteq> CHR ''@''" email] r by auto
  from dot have tne: "tl domain \<noteq> []" by auto
  then obtain x where x: "domain = x # tl domain" by (cases domain) auto
  from dot obtain m1 m2 where m: "butlast (tl domain) = m1 @ CHR ''.'' # m2"
    by (meson split_list)
  have t: "tl domain = m1 @ CHR ''.'' # m2 @ [last (tl domain)]"
    using append_butlast_last_id [OF tne] m by (metis append.assoc append_Cons)
  have d: "domain = (x # m1) @ ''.'' @ (m2 @ [last (tl domain)])"
    using x t by (metis append_Cons append_Nil)
  have e: "email = ?l @ ''@'' @ (x # m1) @ ''.'' @ (m2 @ [last (tl domain)])"
    using takeWhile_dropWhile_id [of "\<lambda>c. c \<noteq> CHR ''@''" email] r a d by (metis append_Cons append_Nil)
  have "list_all addr_char (x # m1)" "list_all addr_char (m2 @ [last (tl domain)])"
    using dom by (subst (asm) d, simp)+
  with e l show "\<exists>l d1 d2. email = l @ ''@'' @ d1 @ ''.'' @ d2 \<and> l \<noteq> [] \<and> d1 \<noteq> [] \<and> d2 \<noteq> [] \<and>
                list_all addr_char l \<and> list_all addr_char d1 \<and> list_all addr_char d2"
    by blast
next
  assume "\<exists>l d1 d2. email = l @ ''@'' @ d1 @ ''.'' @ d2 \<and> l \<noteq> [] \<and> d1 \<noteq> [] \<and> d2 \<noteq> [] \<and>
                list_all addr_char l \<and> list_all addr_char d1 \<and> list_all addr_char d2"
  then obtain l d1 d2 where e: "email = l @ CHR ''@'' # d1 @ CHR ''.'' # d2"
    and ne: "l \<noteq> []" "d1 \<noteq> []" "d2 \<noteq> []"
    and all: "list_all addr_char l" "list_all addr_char d1" "list_all addr_char d2"
    by auto
  have noat: "\<forall>c \<in> set l. c \<noteq> CHR ''@''" using all(1) by (auto simp: list_all_iff addr_char_def)
  have tw: "takeWhile (\<lambda>c. c \<noteq> CHR ''@'') email = l"
    unfolding e using noat by (simp add: takeWhile_tail)
  have dw: "dropWhile (\<lambda>c. c \<noteq> CHR ''@'') email = CHR ''@'' # d1 @ CHR ''.'' # d2"
    unfolding e using noat by (simp add: dropWhile_append3)
  obtain x d1' where d1: "d1 = x # d1'" using ne(2) by (cases d1) auto
  have "butlast (tl (d1 @ CHR ''.'' # d2)) = d1' @ CHR ''.'' # butlast d2"
    using ne(3) by (simp add: d1 butlast_append)
  then have dot: "CHR ''.'' \<in> set (butlast (tl (d1 @ CHR ''.'' # d2)))" by simp
  have "list_all addr_char (d1 @ CHR ''.'' # d2)" using all dot_addr_char by simp
  then show "validateEmail email"
    using tw dw ne(1) all(1) dot by (simp add: validateEmail_def Let_def)
qed

text \<open>
  C10: \<open>addEmail\<close> and \<open>removeEmail\<close> keep the two lists free of duplicates and
  disjoint. \<open>addEmail\<close> of an address that is in either list changes nothing but the
  error message, which it sets; \<open>removeEmail\<close> filters the named list and leaves the
  other one as it is.
\<close>

theorem recipient_lists_invariant:
  assumes "recipients_invariant st"
  shows "recipients_invariant (addEmail type email st) \<and>
         recipients_invariant (removeEmail type email st) \<and>
         (email \<in> set (primaryEmails st) \<union> set (ccEmails st) \<longrightarrow>
            (\<exists>message. message \<noteq> [] \<and> addEmail type email st = st\<lparr>emailError := message\<rparr>)) \<and>
         primaryEmails (removeEmail CC email st) = primaryEmails st \<and>
         ccEmails (removeEmail Primary email st) = ccEmails st \<and>
         primaryEmails (removeEmail Primary email st) = filter (\<lambda>e. e \<noteq> email) (primaryEmails st) \<and>
         ccEmails (removeEmail CC email st) = filter (\<lambda>e. e \<noteq> email) (ccEmails st)"
proof (intro conjI impI)
  show "recipients_invariant (addEmail type email st)"
    using assms by (cases type) (auto simp: recipients_invariant_def addEmail_def Let_def)
  show "recipients_invariant (removeEmail type email st)"
    using assms by (cases type) (auto simp: recipients_invariant_def removeEmail_def)
  show "\<exists>message. message \<noteq> [] \<and> addEmail type email st = st\<lparr>emailError := message\<rparr>"
    if "email \<in> set (primaryEmails st) \<union> set (ccEmails st)"
    using that by (cases type) (auto simp: addEmail_def Let_def)
qed (simp_all add: removeEmail_def)

theorem recipient_lists_invariant_witness:
  "recipients_invariant example_state \<and>
   ''ann@example.com'' \<in> set (primaryEmails example_state) \<union> set (ccEmails example_state) \<and>
   recipients_invariant (addEmail CC ''ann@example.com'' example_state) \<and>
   recipients_invariant (removeEmail CC ''ann@example.com'' example_state) \<and>
   (\<exists>message. message \<noteq> [] \<and>
      addEmail CC ''ann@example.com'' example_state = example_state\<lparr>emailError := message\<rparr>)"
proof -
  have inv: "recipients_invariant example_state"
    by (simp add: recipients_invariant_def example_state_def)
  have mem: "''ann@example.com'' \<in> set (primaryEmails example_state) \<union> set (ccEmails example_state)"
    by (simp add: example_state_def)
  show ?thesis
    using inv mem recipient_lists_invariant [OF inv, of CC "''ann@example.com''"] by blast
qed

subsection \<open>Categorizer\<close>

lemma date_trichotomy:
  fixes s e r :: date
  assumes "s \<le> e"
  shows "(if s \<le> r \<and> r \<le> e then 1 else 0) + (if r < s then 1 else 0) + (if e < r then 1 else (0::nat)) = 1"
  using assms by auto

text \<open>
  C3: for a campaign set whose campaigns all have \<open>start_date \<le> end_date\<close> and any
  reference date, every current campaign is in exactly one of the three buckets, it is
  in completed iff \<open>end_date < referenceDate\<close>, in active iff
  \<open>start_date \<le> referenceDate \<le> end_date\<close>, in upcoming iff
  \<open>start_date > referenceDate\<close>, and the three buckets together hold the campaigns of
  the set, each as often as the set does.
\<close>

theorem categorize_partitions:
  assumes "\<forall>c \<in> set current. start_date c \<le> end_date c"
  shows "(\<forall>c \<in> set current.
            buckets_holding (categorize current referenceDate) c = 1 \<and>
            (c \<in> set (completed (categorize current referenceDate)) \<longleftrightarrow> end_date c < referenceDate) \<and>
            (c \<in> set (active (categorize current referenceDate)) \<longleftrightarrow>
               start_date c \<le> referenceDate \<and> referenceDate \<le> end_date c) \<and>
            (c \<in> set (upcoming (categorize current referenceDate)) \<longleftrightarrow> referenceDate < start_date c))
         \<and> mset (active (categorize current referenceDate)) +
           mset (upcoming (categorize current referenceDate)) +
           mset (completed (categorize current referenceDate)) = mset current"
proof (intro conjI ballI)
  fix c assume c: "c \<in> set current"
  then have le: "start_date c \<le> end_date c" using assms by blast
  show "buckets_holding (categorize current referenceDate) c = 1"
    using c date_trichotomy [OF le, of referenceDate]
    by (simp add: buckets_holding_def categorize_def)
  show "c \<in> set (completed (categorize current referenceDate)) \<longleftrightarrow> end_date c < referenceDate"
    using c by (simp add: categorize_def)
  show "c \<in> set (active (categorize current referenceDate)) \<longleftrightarrow>
               start_date c \<le> referenceDate \<and> referenceDate \<le> end_date c"
    using c by (simp add: categorize_def)
  show "c \<in> set (upcoming (categorize current referenceDate)) \<longleftrightarrow> referenceDate < start_date c"
    using c by (simp add: categorize_def)
next
  show "mset (active (categorize current referenceDate)) +
           mset (upcoming (categorize current referenceDate)) +
           mset (completed (categorize current referenceDate)) = mset current"
    using assms
  proof (induction current)
    case Nil then show ?case by (simp add: categorize_def)
  next
    case (Cons c cs)
    then have le: "start_date c \<le> end_date c" by simp
    have IH: "mset (active (categorize cs referenceDate)) +
           mset (upcoming (categorize cs referenceDate)) +
           mset (completed (categorize cs referenceDate)) = mset cs"
      using Cons by simp
    show ?case using IH le by (auto simp: categorize_def)
  qed
qed

theorem categorize_partitions_witness:
  "buckets_holding (categorize [campaign_A, campaign_B, campaign_C] (2024, 1, 15)) campaign_A = 1 \<and>
   campaign_A \<in> set (active (categorize [campaign_A, campaign_B, campaign_C] (2024, 1, 15))) \<and>
   buckets_holding (categorize [campaign_A, campaign_B, campaign_C] (2024, 1, 15)) campaign_B = 1 \<and>
   campaign_B \<in> set (upcoming (categorize [campaign_A, campaign_B, campaign_C] (2024, 1, 15))) \<and>
   buckets_holding (categorize [campaign_A, campaign_B, campaign_C] (2024, 1, 15)) campaign_C = 1 \<and>
   campaign_C \<in> set (completed (categorize [campaign_A, campaign_B, campaign_C] (2024, 1, 15)))"
proof -
  have h: "\<forall>c \<in> set [campaign_A, campaign_B, campaign_C]. start_date c \<le> end_date c"
    by (simp add: campaign_A_def campaign_B_def campaign_C_def)
  have d: "start_date campaign_A \<le> (2024, 1, 15)" "(2024, 1, 15) \<le> end_date campaign_A"
    "(2024, 1, 15) < start_date campaign_B" "end_date campaign_C < (2024, 1, 15)"
    by (simp_all add: campaign_A_def campaign_B_def campaign_C_def)
  show ?thesis
    using categorize_partitions [OF h, of "(2024, 1, 15)"] d by simp
qed

subsection \<open>Diff Engine\<close>

lemma same_value_refl: "same_value v v"
  by (cases v) auto

lemma field_differences_self: "field_differences c c = []"
  by (auto simp: field_differences_def Let_def filter_empty_conv zip_same same_value_refl)

lemma index_by_identity_dom: "(index_by_identity cs ident = None) = (ident \<notin> identity ` set cs)"
  by (simp add: index_by_identity_def map_of_eq_None_iff image_image)

text \<open>
  C4: diffing campaign records against a previous snapshot with the same records
  (whatever its timestamp) yields \<open>unchanged\<close> for every identity of the records and
  no entry for any other identity: no entry is new, removed or changed.
\<close>

theorem diff_against_itself:
  "diff cs (Some \<lparr>taken_at = t, campaigns = cs\<rparr>) =
     (\<lambda>ident. if ident \<in> identity ` set cs then Some Unchanged else None)"
proof
  fix ident
  show "diff cs (Some \<lparr>taken_at = t, campaigns = cs\<rparr>) ident =
          (if ident \<in> identity ` set cs then Some Unchanged else None)"
    using index_by_identity_dom [of cs ident]
    by (cases "index_by_identity cs ident") (auto simp: diff_def Let_def field_differences_self)
qed


theorem diff_against_itself_witness:
  "diff [campaign_A, campaign_B] (Some \<lparr>taken_at = 1705314600, campaigns = [campaign_A, campaign_B]\<rparr>)
     (identity campaign_A) = Some Unchanged \<and>
   diff [campaign_A, campaign_B] (Some \<lparr>taken_at = 1705314600, campaigns = [campaign_A, campaign_B]\<rparr>)
     (identity campaign_C) = None"
proof -
  have "identity campaign_C \<notin> identity ` set [campaign_A, campaign_B]"
    by (simp add: identity_def campaign_A_def campaign_B_def campaign_C_def)
  then show ?thesis
    by (simp add: diff_against_itself [of "[campaign_A, campaign_B]" 1705314600])
qed

subsection \<open>Record Loader\<close>

lemma missing_columns_set: "set (missing_columns header) = set required_columns - set header"
  by (auto simp: missing_columns_def)

lemma missing_columns_empty: "(missing_columns header = []) = (set required_columns \<subseteq> set header)"
  by (auto simp: missing_columns_def filter_empty_conv)

lemma load_rows_Cons:
  assumes "load_rows P h n seen (row # rows) = (cs, errs)"
  obtains seen' cs' errs' where "load_rows P h (Suc n) seen' rows = (cs', errs')"
    and "(parse_row P (cell h row) = Skipped \<and> cs = cs' \<and> errs = errs') \<or>
         (\<exists>why. parse_row P (cell h row) = Rejected why \<and> cs = cs' \<and> errs = (n, why) # errs') \<or>
         (\<exists>c. parse_row P (cell h row) = Parsed c \<and> cs = cs' \<and>
              errs = (n, ''duplicate campaign identity'') # errs') \<or>
         (\<exists>c. parse_row P (cell h row) = Parsed c \<and> cs = c # cs' \<and> errs = errs')"
proof (cases "parse_row P (cell h row)")
  case (Parsed c)
  show ?thesis
  proof (cases "identity c \<in> set seen")
    case True
    obtain cs' errs' where r: "load_rows P h (Suc n) seen rows = (cs', errs')"
      by (cases "load_rows P h (Suc n) seen rows") auto
    show ?thesis using that [OF r] assms Parsed True r by simp
  next
    case False
    obtain cs' errs' where r: "load_rows P h (Suc n) (identity c # seen) rows = (cs', errs')"
      by (cases "load_rows P h (Suc n) (identity c # seen) rows") auto
    show ?thesis using that [OF r] assms Parsed False r by simp
  qed
next
  case (Rejected why)
  obtain cs' errs' where r: "load_rows P h (Suc n) seen rows = (cs', errs')"
    by (cases "load_rows P h (Suc n) seen rows") auto
  show ?thesis using that [OF r] assms Rejected r by simp
next
  case Skipped
  obtain cs' errs' where r: "load_rows P h (Suc n) seen rows = (cs', errs')"
    by (cases "load_rows P h (Suc n) seen rows") auto
  show ?thesis using that [OF r] assms Skipped r by simp
qed

lemma load_rows_rejected:
  "load_rows P h n seen rows = (cs, errs) \<Longrightarrow> i < length rows \<Longrightarrow>
   parse_row P (cell h (rows ! i)) = Rejected why \<Longrightarrow> (n + i, why) \<in> set errs"
proof (induction rows arbitrary: n seen i cs errs)
  case Nil then show ?case by simp
next
  case (Cons row rows)
  from Cons.prems(1) obtain seen' cs' errs'
    where r: "load_rows P h (Suc n) seen' rows = (cs', errs')"
      and c: "(parse_row P (cell h row) = Skipped \<and> cs = cs' \<and> errs = errs') \<or>
         (\<exists>why. parse_row P (cell h row) = Rejected why \<and> cs = cs' \<and> errs = (n, why) # errs') \<or>
         (\<exists>c. parse_row P (cell h row) = Parsed c \<and> cs = cs' \<and>
              errs = (n, ''duplicate campaign identity'') # errs') \<or>
         (\<exists>c. parse_row P (cell h row) = Parsed c \<and> cs = c # cs' \<and> errs = errs')"
    by (rule load_rows_Cons)
  show ?case
  proof (cases i)
    case 0
    with Cons.prems(3) c show ?thesis by auto
  next
    case (Suc j)
    then have "j < length rows" "parse_row P (cell h (rows ! j)) = Rejected why"
      using Cons.prems by simp_all
    then have "(Suc n + j, why) \<in> set errs'" using Cons.IH [OF r] by blast
    then show ?thesis using c Suc by auto
  qed
qed

lemma load_rows_numbers:
  "load_rows P h n seen rows = (cs, errs) \<Longrightarrow> (k, why) \<in> set errs \<Longrightarrow>
   n \<le> k \<and> k < n + length rows"
proof (induction rows arbitrary: n seen cs errs)
  case Nil then show ?case by simp
next
  case (Cons row rows)
  from Cons.prems(1) obtain seen' cs' errs'
    where r: "load_rows P h (Suc n) seen' rows = (cs', errs')"
      and c: "(parse_row P (cell h row) = Skipped \<and> cs = cs' \<and> errs = errs') \<or>
         (\<exists>why. parse_row P (cell h row) = Rejected why \<and> cs = cs' \<and> errs = (n, why) # errs') \<or>
         (\<exists>c. parse_row P (cell h row) = Parsed c \<and> cs = cs' \<and>
              errs = (n, ''duplicate campaign identity'') # errs') \<or>
         (\<exists>c. parse_row P (cell h row) = Parsed c \<and> cs = c # cs' \<and> errs = errs')"
    by (rule load_rows_Cons)
  have "(k, why) \<in> set errs' \<Longrightarrow> Suc n \<le> k \<and> k < Suc n + length rows"
    using Cons.IH [OF r] by blast
  then show ?case using c Cons.prems(2) by auto
qed

lemma load_rows_parsed:
  "load_rows P h n seen rows = (cs, errs) \<Longrightarrow> c \<in> set cs \<Longrightarrow>
   \<exists>i < length rows. parse_row P (cell h (rows ! i)) = Parsed c"
proof (induction rows arbitrary: n seen cs errs)
  case Nil then show ?case by simp
next
  case (Cons row rows)
  from Cons.prems(1) obtain seen' cs' errs'
    where r: "load_rows P h (Suc n) seen' rows = (cs', errs')"
      and c: "(parse_row P (cell h row) = Skipped \<and> cs = cs' \<and> errs = errs') \<or>
         (\<exists>why. parse_row P (cell h row) = Rejected why \<and> cs = cs' \<and> errs = (n, why) # errs') \<or>
         (\<exists>c. parse_row P (cell h row) = Parsed c \<and> cs = cs' \<and>
              errs = (n, ''duplicate campaign identity'') # errs') \<or>
         (\<exists>c. parse_row P (cell h row) = Parsed c \<and> cs = c # cs' \<and> errs = errs')"
    by (rule load_rows_Cons)
  show ?case
  proof (cases "c \<in> set cs'")
    case True
    then obtain i where "i < length rows" "parse_row P (cell h (rows ! i)) = Parsed c"
      using Cons.IH [OF r] by blast
    then have "Suc i < length (row # rows) \<and> parse_row P (cell h ((row # rows) ! Suc i)) = Parsed c"
      by simp
    then show ?thesis by blast
  next
    case False
    then have "parse_row P (cell h row) = Parsed c" using c Cons.prems(2) by auto
    then have "0 < length (row # rows) \<and> parse_row P (cell h ((row # rows) ! 0)) = Parsed c"
      by simp
    then show ?thesis by blast
  qed
qed

lemma load_rows_accepted:
  "load_rows P h n seen rows = (cs, errs) \<Longrightarrow> i < length rows \<Longrightarrow>
   parse_row P (cell h (rows ! i)) = Parsed c \<Longrightarrow>
   c \<in> set cs \<or> (n + i, ''duplicate campaign identity'') \<in> set errs"
proof (induction rows arbitrary: n seen i cs errs)
  case Nil then show ?case by simp
next
  case (Cons row rows)
  from Cons.prems(1) obtain seen' cs' errs'
    where r: "load_rows P h (Suc n) seen' rows = (cs', errs')"
      and c: "(parse_row P (cell h row) = Skipped \<and> cs = cs' \<and> errs = errs') \<or>
         (\<exists>why. parse_row P (cell h row) = Rejected why \<and> cs = cs' \<and> errs = (n, why) # errs') \<or>
         (\<exists>c. parse_row P (cell h row) = Parsed c \<and> cs = cs' \<and>
              errs = (n, ''duplicate campaign identity'') # errs') \<or>
         (\<exists>c. parse_row P (cell h row) = Parsed c \<and> cs = c # cs' \<and> errs = errs')"
    by (rule load_rows_Cons)
  show ?case
  proof (cases i)
    case 0
    with Cons.prems(3) c show ?thesis by auto
  next
    case (Suc j)
    then have "j < length rows" "parse_row P (cell h (rows ! j)) = Parsed c"
      using Cons.prems by simp_all
    then have "c \<in> set cs' \<or> (Suc n + j, ''duplicate campaign identity'') \<in> set errs'"
      using Cons.IH [OF r] by blast
    then show ?thesis using c Suc by auto
  qed
qed

lemma repeats_earlier_row_0: "repeats_earlier_row P h rows 0 c = False"
  by (simp add: repeats_earlier_row_def)

lemma repeats_earlier_row_Suc:
  "repeats_earlier_row P h (row # rows) (Suc i) c =
     (same_identity_parsed P h c row \<or> repeats_earlier_row P h rows i c)"
  by (simp add: repeats_earlier_row_def)

lemma upt_0_Suc: "[0..<Suc m] = 0 # map Suc [0..<m]"
  using upt_conv_Cons [of 0 "Suc m"] by (simp add: map_Suc_upt del: upt_Suc)

lemma from_Suc_not_parsed:
  assumes "\<not> (\<exists>c. parse_row P (cell h row) = Parsed c)"
  shows "campaigns_from P h seen (row # rows) (Suc i) = campaigns_from P h seen rows i"
    and "errors_from P h n seen (row # rows) (Suc i) = errors_from P h (Suc n) seen rows i"
proof -
  have s: "\<And>c. same_identity_parsed P h c row = False"
    using assms by (auto simp: same_identity_parsed_def split: row_outcome.splits)
  show "campaigns_from P h seen (row # rows) (Suc i) = campaigns_from P h seen rows i"
    by (cases "parse_row P (cell h (rows ! i))")
       (simp_all add: campaigns_from_def repeats_earlier_row_Suc s)
  show "errors_from P h n seen (row # rows) (Suc i) = errors_from P h (Suc n) seen rows i"
    by (cases "parse_row P (cell h (rows ! i))")
       (simp_all add: errors_from_def repeats_earlier_row_Suc s)
qed

lemma from_Suc_repeated:
  assumes "parse_row P (cell h row) = Parsed c0" "identity c0 \<in> set seen"
  shows "campaigns_from P h seen (row # rows) (Suc i) = campaigns_from P h seen rows i"
    and "errors_from P h n seen (row # rows) (Suc i) = errors_from P h (Suc n) seen rows i"
proof -
  have s: "\<And>c. same_identity_parsed P h c row = (identity c0 = identity c)"
    using assms by (simp add: same_identity_parsed_def)
  have e: "\<And>c. (identity c \<in> set seen \<or> identity c0 = identity c \<or> repeats_earlier_row P h rows i c)
             = (identity c \<in> set seen \<or> repeats_earlier_row P h rows i c)"
    using assms(2) by auto
  show "campaigns_from P h seen (row # rows) (Suc i) = campaigns_from P h seen rows i"
    by (cases "parse_row P (cell h (rows ! i))")
       (simp_all add: campaigns_from_def repeats_earlier_row_Suc s e)
  show "errors_from P h n seen (row # rows) (Suc i) = errors_from P h (Suc n) seen rows i"
    by (cases "parse_row P (cell h (rows ! i))")
       (simp_all add: errors_from_def repeats_earlier_row_Suc s e)
qed

lemma from_Suc_accepted:
  assumes "parse_row P (cell h row) = Parsed c0"
  shows "campaigns_from P h seen (row # rows) (Suc i) = campaigns_from P h (identity c0 # seen) rows i"
    and "errors_from P h n seen (row # rows) (Suc i) = errors_from P h (Suc n) (identity c0 # seen) rows i"
proof -
  have s: "\<And>c. same_identity_parsed P h c row = (identity c0 = identity c)"
    using assms by (simp add: same_identity_parsed_def)
  have e: "\<And>c. (identity c \<in> set (identity c0 # seen) \<or> repeats_earlier_row P h rows i c)
             = (identity c \<in> set seen \<or> identity c0 = identity c \<or> repeats_earlier_row P h rows i c)"
    by auto
  show "campaigns_from P h seen (row # rows) (Suc i) = campaigns_from P h (identity c0 # seen) rows i"
    by (cases "parse_row P (cell h (rows ! i))")
       (simp_all add: campaigns_from_def repeats_earlier_row_Suc s e del: set_simps)
  show "errors_from P h n seen (row # rows) (Suc i) = errors_from P h (Suc n) (identity c0 # seen) rows i"
    by (cases "parse_row P (cell h (rows ! i))")
       (simp_all add: errors_from_def repeats_earlier_row_Suc s e del: set_simps)
qed

lemma concat_map_upt_Suc:
  "concat (map f [0..<Suc m]) = f 0 @ concat (map (\<lambda>i. f (Suc i)) [0..<m])"
  by (simp only: upt_0_Suc list.map concat.simps map_map o_def)

lemma load_rows_from:
  "load_rows P h n seen rows =
     (concat (map (campaigns_from P h seen rows) [0..<length rows]),
      concat (map (errors_from P h n seen rows) [0..<length rows]))"
proof (induction rows arbitrary: n seen)
  case Nil
  show ?case by simp
next
  case (Cons row rows)
  have len: "length (row # rows) = Suc (length rows)" by simp
  show ?case
  proof (cases "parse_row P (cell h row)")
    case (Parsed c0)
    show ?thesis
    proof (cases "identity c0 \<in> set seen")
      case True
      have c0: "campaigns_from P h seen (row # rows) 0 = []"
        and e0: "errors_from P h n seen (row # rows) 0 = [(n, ''duplicate campaign identity'')]"
        using Parsed True by (simp_all add: campaigns_from_def errors_from_def)
      show ?thesis
        unfolding len concat_map_upt_Suc from_Suc_repeated [OF Parsed True] c0 e0
        using Parsed True by (simp add: Cons.IH [of "Suc n" seen])
    next
      case False
      have c0: "campaigns_from P h seen (row # rows) 0 = [c0]"
        and e0: "errors_from P h n seen (row # rows) 0 = []"
        using Parsed False by (simp_all add: campaigns_from_def errors_from_def repeats_earlier_row_0)
      show ?thesis
        unfolding len concat_map_upt_Suc from_Suc_accepted [OF Parsed] c0 e0
        using Parsed False by (simp add: Cons.IH [of "Suc n" "identity c0 # seen"])
    qed
  next
    case (Rejected why)
    then have np: "\<not> (\<exists>c. parse_row P (cell h row) = Parsed c)" by simp
    have c0: "campaigns_from P h seen (row # rows) 0 = []"
      and e0: "errors_from P h n seen (row # rows) 0 = [(n, why)]"
      using Rejected by (simp_all add: campaigns_from_def errors_from_def)
    show ?thesis
      unfolding len concat_map_upt_Suc from_Suc_not_parsed [OF np] c0 e0
      using Rejected by (simp add: Cons.IH [of "Suc n" seen])
  next
    case Skipped
    then have np: "\<not> (\<exists>c. parse_row P (cell h row) = Parsed c)" by simp
    have c0: "campaigns_from P h seen (row # rows) 0 = []"
      and e0: "errors_from P h n seen (row # rows) 0 = []"
      using Skipped by (simp_all add: campaigns_from_def errors_from_def)
    show ?thesis
      unfolding len concat_map_upt_Suc from_Suc_not_parsed [OF np] c0 e0
      using Skipped by (simp add: Cons.IH [of "Suc n" seen])
  qed
qed

lemma from_nothing_seen:
  "campaigns_from P h [] rows = expected_campaigns P h rows"
  "errors_from P h 1 [] rows = expected_errors P h rows"
proof -
  show "campaigns_from P h [] rows = expected_campaigns P h rows"
  proof
    fix i show "campaigns_from P h [] rows i = expected_campaigns P h rows i"
      by (cases "parse_row P (cell h (rows ! i))")
         (simp_all add: campaigns_from_def expected_campaigns_def)
  qed
  show "errors_from P h 1 [] rows = expected_errors P h rows"
  proof
    fix i show "errors_from P h 1 [] rows i = expected_errors P h rows i"
      by (cases "parse_row P (cell h (rows ! i))")
         (simp_all add: errors_from_def expected_errors_def)
  qed
qed

lemma load_rows_expected:
  "load_rows P h 1 [] rows =
     (concat (map (expected_campaigns P h rows) [0..<length rows]),
      concat (map (expected_errors P h rows) [0..<length rows]))"
  by (simp only: load_rows_from from_nothing_seen)

lemma repeats_earlier_row_iff:
  "repeats_earlier_row P h rows i c =
     (\<exists>j c'. j < i \<and> j < length rows \<and> parse_row P (cell h (rows ! j)) = Parsed c' \<and>
             identity c' = identity c)"
proof
  assume "repeats_earlier_row P h rows i c"
  then obtain r where r: "r \<in> set (take i rows)" "same_identity_parsed P h c r"
    by (auto simp: repeats_earlier_row_def list_ex_iff)
  from r(1) obtain j where j: "j < length (take i rows)" "take i rows ! j = r"
    by (auto simp: in_set_conv_nth)
  then have "j < i" "j < length rows" "rows ! j = r" by simp_all
  moreover obtain c' where "parse_row P (cell h r) = Parsed c'" "identity c' = identity c"
    using r(2) by (auto simp: same_identity_parsed_def split: row_outcome.splits)
  ultimately show "\<exists>j c'. j < i \<and> j < length rows \<and>
      parse_row P (cell h (rows ! j)) = Parsed c' \<and> identity c' = identity c"
    by blast
next
  assume "\<exists>j c'. j < i \<and> j < length rows \<and>
      parse_row P (cell h (rows ! j)) = Parsed c' \<and> identity c' = identity c"
  then obtain j c' where j: "j < i" "j < length rows"
    and p: "parse_row P (cell h (rows ! j)) = Parsed c'" "identity c' = identity c"
    by blast
  have "rows ! j \<in> set (take i rows)"
    using j by (auto simp: in_set_conv_nth intro!: exI [of _ j])
  moreover have "same_identity_parsed P h c (rows ! j)"
    using p by (simp add: same_identity_parsed_def)
  ultimately show "repeats_earlier_row P h rows i c"
    by (auto simp: repeats_earlier_row_def list_ex_iff)
qed

lemma in_concat_upt: "i < m \<Longrightarrow> x \<in> set (f i) \<Longrightarrow> x \<in> set (concat (map f [0..<m]))"
  by auto

lemma load_rows_distinct:
  "load_rows P h n seen rows = (cs, errs) \<Longrightarrow>
   distinct (map identity cs) \<and> identity ` set cs \<inter> set seen = {}"
proof (induction rows arbitrary: n seen cs errs)
  case Nil then show ?case by simp
next
  case (Cons row rows)
  show ?case
  proof (cases "parse_row P (cell h row)")
    case (Parsed c0)
    show ?thesis
    proof (cases "identity c0 \<in> set seen")
      case True
      obtain cs' errs' where r: "load_rows P h (n + 1) seen rows = (cs', errs')"
        by (cases "load_rows P h (n + 1) seen rows") auto
      have "cs = cs'" using Cons.prems Parsed True r by simp
      then show ?thesis using Cons.IH [OF r] by simp
    next
      case False
      obtain cs' errs' where r: "load_rows P h (n + 1) (identity c0 # seen) rows = (cs', errs')"
        by (cases "load_rows P h (n + 1) (identity c0 # seen) rows") auto
      have "cs = c0 # cs'" using Cons.prems Parsed False r by simp
      then show ?thesis using Cons.IH [OF r] False by auto
    qed
  next
    case (Rejected why)
    obtain cs' errs' where r: "load_rows P h (n + 1) seen rows = (cs', errs')"
      by (cases "load_rows P h (n + 1) seen rows") auto
    have "cs = cs'" using Cons.prems Rejected r by simp
    then show ?thesis using Cons.IH [OF r] by simp
  next
    case Skipped
    obtain cs' errs' where r: "load_rows P h (n + 1) seen rows = (cs', errs')"
      by (cases "load_rows P h (n + 1) seen rows") auto
    have "cs = cs'" using Cons.prems Skipped r by simp
    then show ?thesis using Cons.IH [OF r] by simp
  qed
qed

text \<open>
  C6: when required columns are absent from the header, the load fails with a
  SchemaError that lists all the missing required columns, and it does so for any rows
  and any cell parsers: no row is looked at. When all required columns are present,
  the load does not fail, and it returns, in the order of the rows, exactly the
  campaigns and the row errors that the rows give one by one. So every row that fails
  validation is among the row errors with its 1-based number and its reason; every row
  that passes validation and repeats the identity of no earlier row is among the
  campaigns; every row that passes validation and repeats the identity of an earlier
  row is among the row errors with its number; no two campaigns returned have the same
  identity; every row error carries the number of a row; and every campaign returned
  is the parse of a row.
\<close>

theorem load_header_then_rows:
  "(\<not> set required_columns \<subseteq> set header \<longrightarrow>
      (\<exists>missing. load P header rows = Inl (SchemaError missing) \<and>
                 set missing = set required_columns - set header \<and>
                 (\<forall>P' rows'. load P' header rows' = Inl (SchemaError missing))))
   \<and>
   (set required_columns \<subseteq> set header \<longrightarrow>
      (\<exists>cs errs.
         load P header rows = Inr (cs, errs) \<and>
         cs = concat (map (expected_campaigns P header rows) [0..<length rows]) \<and>
         errs = concat (map (expected_errors P header rows) [0..<length rows]) \<and>
         (\<forall>i why. i < length rows \<and> parse_row P (cell header (rows ! i)) = Rejected why \<longrightarrow>
                   (i + 1, why) \<in> set errs) \<and>
         (\<forall>i c. i < length rows \<and> parse_row P (cell header (rows ! i)) = Parsed c \<and>
                 (\<forall>j c'. j < i \<and> parse_row P (cell header (rows ! j)) = Parsed c' \<longrightarrow>
                         identity c' \<noteq> identity c) \<longrightarrow>
                 c \<in> set cs) \<and>
         (\<forall>i c. i < length rows \<and> parse_row P (cell header (rows ! i)) = Parsed c \<and>
                 (\<exists>j c'. j < i \<and> parse_row P (cell header (rows ! j)) = Parsed c' \<and>
                         identity c' = identity c) \<longrightarrow>
                 (i + 1, ''duplicate campaign identity'') \<in> set errs) \<and>
         (\<forall>i c. i < length rows \<and> parse_row P (cell header (rows ! i)) = Parsed c \<longrightarrow>
                 c \<in> set cs \<or> (i + 1, ''duplicate campaign identity'') \<in> set errs) \<and>
         distinct (map identity cs) \<and>
         (\<forall>n why. (n, why) \<in> set errs \<longrightarrow> 1 \<le> n \<and> n \<le> length rows) \<and>
         (\<forall>c \<in> set cs. \<exists>i < length rows. parse_row P (cell header (rows ! i)) = Parsed c)))"
proof (intro conjI impI)
  assume "\<not> set required_columns \<subseteq> set header"
  then have m: "missing_columns header \<noteq> []" by (simp add: missing_columns_empty)
  then have "\<forall>P' rows'. load P' header rows' = Inl (SchemaError (missing_columns header))"
    by (simp add: load_def)
  then show "\<exists>missing. load P header rows = Inl (SchemaError missing) \<and>
                 set missing = set required_columns - set header \<and>
                 (\<forall>P' rows'. load P' header rows' = Inl (SchemaError missing))"
    using missing_columns_set by blast
next
  assume "set required_columns \<subseteq> set header"
  then have m: "missing_columns header = []" by (simp add: missing_columns_empty)
  define cs where "cs = concat (map (expected_campaigns P header rows) [0..<length rows])"
  define errs where "errs = concat (map (expected_errors P header rows) [0..<length rows])"
  have lr: "load_rows P header 1 [] rows = (cs, errs)"
    by (simp only: load_rows_expected cs_def errs_def)
  have l: "load P header rows = Inr (cs, errs)" using m lr by (simp add: load_def)
  have a: "\<forall>i why. i < length rows \<and> parse_row P (cell header (rows ! i)) = Rejected why \<longrightarrow>
                   (i + 1, why) \<in> set errs"
    using load_rows_rejected [OF lr] by (simp add: add.commute)
  have first: "\<forall>i c. i < length rows \<and> parse_row P (cell header (rows ! i)) = Parsed c \<and>
                 (\<forall>j c'. j < i \<and> parse_row P (cell header (rows ! j)) = Parsed c' \<longrightarrow>
                         identity c' \<noteq> identity c) \<longrightarrow>
                 c \<in> set cs"
  proof (intro allI impI)
    fix i c
    assume h: "i < length rows \<and> parse_row P (cell header (rows ! i)) = Parsed c \<and>
                 (\<forall>j c'. j < i \<and> parse_row P (cell header (rows ! j)) = Parsed c' \<longrightarrow>
                         identity c' \<noteq> identity c)"
    then have "\<not> repeats_earlier_row P header rows i c"
      unfolding repeats_earlier_row_iff by blast
    then have "c \<in> set (expected_campaigns P header rows i)"
      using h by (simp add: expected_campaigns_def)
    then show "c \<in> set cs"
      unfolding cs_def using h in_concat_upt by fast
  qed
  have again: "\<forall>i c. i < length rows \<and> parse_row P (cell header (rows ! i)) = Parsed c \<and>
                 (\<exists>j c'. j < i \<and> parse_row P (cell header (rows ! j)) = Parsed c' \<and>
                         identity c' = identity c) \<longrightarrow>
                 (i + 1, ''duplicate campaign identity'') \<in> set errs"
  proof (intro allI impI)
    fix i c
    assume h: "i < length rows \<and> parse_row P (cell header (rows ! i)) = Parsed c \<and>
                 (\<exists>j c'. j < i \<and> parse_row P (cell header (rows ! j)) = Parsed c' \<and>
                         identity c' = identity c)"
    then obtain j c' where "j < i" "parse_row P (cell header (rows ! j)) = Parsed c'"
      "identity c' = identity c" by blast
    moreover from this h have "j < length rows" by simp
    ultimately have "repeats_earlier_row P header rows i c"
      unfolding repeats_earlier_row_iff by blast
    then have "(i + 1, ''duplicate campaign identity'') \<in> set (expected_errors P header rows i)"
      using h by (simp add: expected_errors_def)
    then show "(i + 1, ''duplicate campaign identity'') \<in> set errs"
      unfolding errs_def using h in_concat_upt by fast
  qed
  have a': "\<forall>i c. i < length rows \<and> parse_row P (cell header (rows ! i)) = Parsed c \<longrightarrow>
                 c \<in> set cs \<or> (i + 1, ''duplicate campaign identity'') \<in> set errs"
    using load_rows_accepted [OF lr] by (simp add: add.commute)
  have d: "distinct (map identity cs)" using load_rows_distinct [OF lr] by simp
  have b: "\<forall>n why. (n, why) \<in> set errs \<longrightarrow> 1 \<le> n \<and> n \<le> length rows"
    using load_rows_numbers [OF lr] by fastforce
  have c: "\<forall>c \<in> set cs. \<exists>i < length rows. parse_row P (cell header (rows ! i)) = Parsed c"
    using load_rows_parsed [OF lr] by blast
  show "\<exists>cs errs.
         load P header rows = Inr (cs, errs) \<and>
         cs = concat (map (expected_campaigns P header rows) [0..<length rows]) \<and>
         errs = concat (map (expected_errors P header rows) [0..<length rows]) \<and>
         (\<forall>i why. i < length rows \<and> parse_row P (cell header (rows ! i)) = Rejected why \<longrightarrow>
                   (i + 1, why) \<in> set errs) \<and>
         (\<forall>i c. i < length rows \<and> parse_row P (cell header (rows ! i)) = Parsed c \<and>
                 (\<forall>j c'. j < i \<and> parse_row P (cell header (rows ! j)) = Parsed c' \<longrightarrow>
                         identity c' \<noteq> identity c) \<longrightarrow>
                 c \<in> set cs) \<and>
         (\<forall>i c. i < length rows \<and> parse_row P (cell header (rows ! i)) = Parsed c \<and>
                 (\<exists>j c'. j < i \<and> parse_row P (cell header (rows ! j)) = Parsed c' \<and>
                         identity c' = identity c) \<longrightarrow>
                 (i + 1, ''duplicate campaign identity'') \<in> set errs) \<and>
         (\<forall>i c. i < length rows \<and> parse_row P (cell header (rows ! i)) = Parsed c \<longrightarrow>
                 c \<in> set cs \<or> (i + 1, ''duplicate campaign identity'') \<in> set errs) \<and>
         distinct (map identity cs) \<and>
         (\<forall>n why. (n, why) \<in> set errs \<longrightarrow> 1 \<le> n \<and> n \<le> length rows) \<and>
         (\<forall>c \<in> set cs. \<exists>i < length rows. parse_row P (cell header (rows ! i)) = Parsed c)"
    using l cs_def errs_def a first again a' d b c by blast
qed

theorem load_header_then_rows_witness:
  "\<not> set required_columns \<subseteq> set [''Tactic Start Date'', ''Tactic End Date'', ''Retailer''] \<and>
   (\<exists>missing.
      load example_parsers [''Tactic Start Date'', ''Tactic End Date'', ''Retailer''] example_rows =
        Inl (SchemaError missing) \<and>
      set missing =
        set required_columns - set [''Tactic Start Date'', ''Tactic End Date'', ''Retailer'']) \<and>
   set required_columns \<subseteq> set required_columns \<and>
   parse_row example_parsers (cell required_columns (example_rows ! 0)) = Parsed campaign_A \<and>
   parse_row example_parsers (cell required_columns (example_rows ! 1)) = Rejected ''bad date'' \<and>
   parse_row example_parsers (cell required_columns (example_rows ! 2)) = Skipped \<and>
   parse_row example_parsers (cell required_columns (example_rows ! 3)) = Parsed campaign_A \<and>
   load example_parsers required_columns example_rows =
     Inr ([campaign_A], [(2, ''bad date''), (4, ''duplicate campaign identity'')])"
proof -
  let ?short = "[''Tactic Start Date'', ''Tactic End Date'', ''Retailer'']"
  let ?h = required_columns
  have m: "\<not> set required_columns \<subseteq> set ?short" by (simp add: required_columns_def)
  have r0: "parse_row example_parsers (cell ?h (example_rows ! 0)) = Parsed campaign_A"
    by (simp add: parse_row_def example_parsers_def cell_def required_columns_def
        example_rows_def campaign_A_def)
  have r1: "parse_row example_parsers (cell ?h (example_rows ! 1)) = Rejected ''bad date''"
    by (simp add: parse_row_def example_parsers_def cell_def required_columns_def example_rows_def)
  have r2: "parse_row example_parsers (cell ?h (example_rows ! 2)) = Skipped"
    by (simp add: parse_row_def example_parsers_def cell_def required_columns_def example_rows_def)
  have r3: "parse_row example_parsers (cell ?h (example_rows ! 3)) = Parsed campaign_A"
    by (simp add: parse_row_def example_parsers_def cell_def required_columns_def
        example_rows_def campaign_A_def)
  have r1': "parse_row example_parsers (cell ?h (example_rows ! Suc 0)) = Rejected ''bad date''"
    by (simp add: parse_row_def example_parsers_def cell_def required_columns_def example_rows_def)
  have r2': "parse_row example_parsers (cell ?h (example_rows ! Suc (Suc 0))) = Skipped"
    by (simp add: parse_row_def example_parsers_def cell_def required_columns_def example_rows_def)
  have r3': "parse_row example_parsers (cell ?h (example_rows ! Suc (Suc (Suc 0)))) = Parsed campaign_A"
    by (simp add: parse_row_def example_parsers_def cell_def required_columns_def
        example_rows_def campaign_A_def)
  have len: "length example_rows = 4" by (simp add: example_rows_def)
  have upt: "[0..<length example_rows] = [0, Suc 0, Suc (Suc 0), Suc (Suc (Suc 0))]"
    unfolding len by code_simp
  have t: "take (Suc (Suc (Suc 0))) example_rows =
             [example_rows ! 0, example_rows ! Suc 0, example_rows ! Suc (Suc 0)]"
    by (simp add: example_rows_def)
  have rep: "repeats_earlier_row example_parsers ?h example_rows (Suc (Suc (Suc 0))) campaign_A"
    unfolding repeats_earlier_row_def t by (simp add: same_identity_parsed_def r0)
  have norep: "\<not> repeats_earlier_row example_parsers ?h example_rows 0 campaign_A"
    by (simp add: repeats_earlier_row_def)
  from load_header_then_rows [of ?short example_parsers example_rows, THEN conjunct1, THEN mp, OF m]
  have a: "\<exists>missing.
      load example_parsers ?short example_rows = Inl (SchemaError missing) \<and>
      set missing = set required_columns - set ?short"
    by blast
  from load_header_then_rows [of ?h example_parsers example_rows, THEN conjunct2, THEN mp,
      OF subset_refl]
  have "load example_parsers ?h example_rows =
          Inr (concat (map (expected_campaigns example_parsers ?h example_rows)
                 [0..<length example_rows]),
               concat (map (expected_errors example_parsers ?h example_rows)
                 [0..<length example_rows]))"
    by blast
  then have b: "load example_parsers ?h example_rows =
     Inr ([campaign_A], [(2, ''bad date''), (4, ''duplicate campaign identity'')])"
    unfolding upt
    by (simp add: expected_campaigns_def expected_errors_def r0 r1' r2' r3' rep norep)
  show ?thesis using m a r0 r1 r2 r3 b by (intro conjI) simp_all
qed

subsection \<open>Retention Sweeper\<close>

text \<open>
  C7: after the sweep the output directory holds exactly the files it held whose name
  does not embed a timestamp older than \<open>now\<close> minus \<open>retentionDays\<close> days, and the
  count returned is the number of files gone; the files' modification times play no
  part (with any other modification times the same names remain); the History Store is
  as it was; and a second sweep with the same arguments removes nothing and changes
  nothing.
\<close>

theorem sweep_by_embedded_timestamp:
  "(f \<in> set (output_files (fst (sweep embedded st retentionDays now))) \<longleftrightarrow>
      f \<in> set (output_files st) \<and>
      \<not> (\<exists>generated. embedded (file_name f) = Some generated \<and>
                      generated < now - int retentionDays * 86400)) \<and>
   snd (sweep embedded st retentionDays now) =
     length (output_files st) - length (output_files (fst (sweep embedded st retentionDays now))) \<and>
   map file_name
     (output_files (fst (sweep embedded
        (st\<lparr>output_files := map (\<lambda>f. f\<lparr>mtime := touched f\<rparr>) (output_files st)\<rparr>)
        retentionDays now))) =
   map file_name (output_files (fst (sweep embedded st retentionDays now))) \<and>
   history_store (fst (sweep embedded st retentionDays now)) = history_store st \<and>
   snd (sweep embedded (fst (sweep embedded st retentionDays now)) retentionDays now) = 0 \<and>
   fst (sweep embedded (fst (sweep embedded st retentionDays now)) retentionDays now) =
     fst (sweep embedded st retentionDays now)"
proof -
  let ?e = "expired embedded retentionDays now"
  have e: "\<And>f. ?e f = (\<exists>generated. embedded (file_name f) = Some generated \<and>
                      generated < now - int retentionDays * 86400)"
    by (simp add: expired_def split: option.splits)
  have len: "length (filter ?e (output_files st)) =
        length (output_files st) - length (filter (\<lambda>f. \<not> ?e f) (output_files st))"
    using sum_length_filter_compl [of ?e "output_files st"] by simp
  have touched: "\<And>f. ?e (f\<lparr>mtime := touched f\<rparr>) = ?e f" by (simp add: expired_def)
  have names: "map file_name (filter (\<lambda>f. \<not> ?e f) (map (\<lambda>f. f\<lparr>mtime := touched f\<rparr>) (output_files st)))
     = map file_name (filter (\<lambda>f. \<not> ?e f) (output_files st))"
    by (induction "output_files st" arbitrary: st) (simp_all add: filter_map o_def touched)
  show ?thesis
    using len names by (simp add: sweep_def e [symmetric])
qed


theorem sweep_by_embedded_timestamp_witness:
  "map file_name (output_files (fst (sweep example_embedded example_storage 30 1710000000))) =
     [''Campaign_Status_Report_20240301_090000.md'', ''notes.txt''] \<and>
   snd (sweep example_embedded example_storage 30 1710000000) = 1 \<and>
   snd (sweep example_embedded (fst (sweep example_embedded example_storage 30 1710000000))
          30 1710000000) = 0"
proof -
  have a: "map file_name (output_files (fst (sweep example_embedded example_storage 30 1710000000))) =
     [''Campaign_Status_Report_20240301_090000.md'', ''notes.txt'']"
    by (simp add: sweep_def expired_def example_embedded_def example_storage_def)
  have b: "length (output_files example_storage) = 3" by (simp add: example_storage_def)
  have c: "length (output_files (fst (sweep example_embedded example_storage 30 1710000000))) = 2"
    using arg_cong [OF a, of length] by simp
  show ?thesis
    using sweep_by_embedded_timestamp
      [of _ example_embedded example_storage 30 1710000000] a b c
    by simp
qed

end
